theory Spec2Isabelle
  imports Main "HOL-Library.Multiset" "HOL-Library.List_Lexorder" "HOL-Library.Char_ord"
begin

section \<open>Blocks\<close>

text \<open>
  Modelled from the spec: the columnar \<open>Block\<close> (Core/Block.h is not among the sources).
  A block is a sequence of named, typed columns; \<open>rows()\<close> is the size of the first
  column, \<open>bytes()\<close> the sum of the columns' byte sizes, \<open>operator bool\<close> tells whether
  the block has any column at all, \<open>cloneEmpty()\<close> keeps the header and drops the rows,
  \<open>sortColumns()\<close> orders the columns by name.
\<close>

datatype field = Int64 int | String string

fun byteSize :: "field \<Rightarrow> nat" where
  "byteSize (Int64 _) = 8"
| "byteSize (String s) = length s + 9"

record column =
  col_name :: string
  col_type :: string
  col_data :: "field list"

type_synonym block = "column list"

type_synonym header = "(string \<times> string) list"

definition columns :: "block \<Rightarrow> nat" where
  "columns b = length b"

definition rows :: "block \<Rightarrow> nat" where
  "rows b = (case b of [] \<Rightarrow> 0 | c # _ \<Rightarrow> length (col_data c))"

definition col_bytes :: "column \<Rightarrow> nat" where
  "col_bytes c = sum_list (map byteSize (col_data c))"

definition bytes :: "block \<Rightarrow> nat" where
  "bytes b = sum_list (map col_bytes b)"

definition getHeader :: "block \<Rightarrow> header" where
  "getHeader b = map (\<lambda>c. (col_name c, col_type c)) b"

definition cloneEmpty :: "block \<Rightarrow> block" where
  "cloneEmpty b = map (\<lambda>c. c\<lparr>col_data := []\<rparr>) b"

definition sortColumns :: "block \<Rightarrow> block" where
  "sortColumns b = sort_key col_name b"

definition getByName :: "block \<Rightarrow> string \<Rightarrow> column option" where
  "getByName b n = find (\<lambda>c. col_name c = n) b"

text \<open>\<open>checkNumberOfRows\<close> throws unless every column has the block's row count.\<close>

definition checkNumberOfRows :: "block \<Rightarrow> bool" where
  "checkNumberOfRows b = list_all (\<lambda>c. length (col_data c) = rows b) b"

text \<open>\<open>assertBlocksHaveEqualStructure\<close> throws unless names and types agree position by position.\<close>

definition blocksHaveEqualStructure :: "block \<Rightarrow> block \<Rightarrow> bool" where
  "blocksHaveEqualStructure a b = (getHeader a = getHeader b)"

section \<open>The storage and its environment\<close>

type_synonym time_t = int

text \<open>
  The error codes the file throws, the exceptions of the collaborators it calls (the schema
  check, the size and structure assertions on blocks, a column append, the destination
  write), and the two abnormal ends of the process: \<open>std::terminate\<close>, and a read through
  a null column pointer.
\<close>

datatype error =
    LOGICAL_ERROR
  | INFINITE_LOOP
  | NOT_IMPLEMENTED
  | CHECK_FAILED
  | BLOCKS_HAVE_DIFFERENT_STRUCTURE
  | SIZES_OF_COLUMNS_DOESNT_MATCH
  | INSERT_RANGE_FAILED
  | DESTINATION_FAILED
  | TERMINATED
  | SEGMENTATION_FAULT

record thresholds =
  thr_time :: time_t
  thr_rows :: nat
  thr_bytes :: nat

record buffer =
  first_write_time :: time_t
  data :: block

text \<open>
  The destination table is an external collaborator. Its record keeps what the buffer
  consumes: the two sample blocks, the row count it reports, whether an insert into it
  throws, and the blocks it has received so far.
\<close>

record table =
  sample_block :: header
  sample_block_non_materialized :: header
  reported_rows :: "nat option"
  write_throws :: bool
  written :: "block list"

text \<open>What \<open>DatabaseCatalog::tryGetTable(destination_id)\<close> finds.\<close>

datatype lookup = NoSuchTable | Myself | Table table

datatype log_entry =
    Trace_WritingDirectly nat nat
  | Trace_Flushing nat nat time_t bool
  | Error_DestinationMissing
  | Warning_DifferentType string
  | Error_NoCommonColumns
  | Warning_ColumnsDiscarded

text \<open>
  \<open>castColumn\<close> (Interpreters/castColumn.h) is not among the sources; the storage record
  carries it as a parameter. The profile events and the two gauges are global counters of
  the process, the scheduled delay is what \<open>flush_handle->scheduleAfter\<close> was last given
  in milliseconds.
\<close>

record storage =
  buffers :: "buffer list"
  min_thresholds :: thresholds
  max_thresholds :: thresholds
  destination_id :: "string option"
  allow_materialized :: bool
  storage_columns :: header
  castColumn :: "column \<Rightarrow> string \<Rightarrow> field list"
  catalog :: lookup
  StorageBufferRows :: int
  StorageBufferBytes :: int
  StorageBufferFlush :: nat
  StorageBufferErrorOnFlush :: nat
  StorageBufferPassedAllMinThresholds :: nat
  StorageBufferPassedTimeMaxThreshold :: nat
  StorageBufferPassedRowsMaxThreshold :: nat
  StorageBufferPassedBytesMaxThreshold :: nat
  logged :: "log_entry list"
  scheduled :: "int option"

definition num_shards :: "storage \<Rightarrow> nat" where
  "num_shards s = length (buffers s)"

definition tryGetTable :: "storage \<Rightarrow> lookup" where
  "tryGetTable s = (case destination_id s of None \<Rightarrow> NoSuchTable | Some _ \<Rightarrow> catalog s)"

section \<open>The threshold evaluator\<close>

definition checkThresholdsImpl :: "storage \<Rightarrow> nat \<Rightarrow> nat \<Rightarrow> time_t \<Rightarrow> bool \<times> storage" where
  "checkThresholdsImpl s rws bts time_passed =
     (if time_passed > thr_time (min_thresholds s) \<and> rws > thr_rows (min_thresholds s)
         \<and> bts > thr_bytes (min_thresholds s)
      then (True, s\<lparr>StorageBufferPassedAllMinThresholds := StorageBufferPassedAllMinThresholds s + 1\<rparr>)
      else if time_passed > thr_time (max_thresholds s)
      then (True, s\<lparr>StorageBufferPassedTimeMaxThreshold := StorageBufferPassedTimeMaxThreshold s + 1\<rparr>)
      else if rws > thr_rows (max_thresholds s)
      then (True, s\<lparr>StorageBufferPassedRowsMaxThreshold := StorageBufferPassedRowsMaxThreshold s + 1\<rparr>)
      else if bts > thr_bytes (max_thresholds s)
      then (True, s\<lparr>StorageBufferPassedBytesMaxThreshold := StorageBufferPassedBytesMaxThreshold s + 1\<rparr>)
      else (False, s))"

definition checkThresholds :: "storage \<Rightarrow> buffer \<Rightarrow> time_t \<Rightarrow> nat \<Rightarrow> nat \<Rightarrow> bool \<times> storage" where
  "checkThresholds s buffer current_time additional_rows additional_bytes =
     (let time_passed = (if first_write_time buffer \<noteq> 0
                         then current_time - first_write_time buffer else 0);
          rws = rows (data buffer) + additional_rows;
          bts = bytes (data buffer) + additional_bytes
      in checkThresholdsImpl s rws bts time_passed)"

text \<open>The predicate of the spec, section 4.3, written from its four numbered cases.\<close>

definition exceeded :: "thresholds \<Rightarrow> thresholds \<Rightarrow> nat \<Rightarrow> nat \<Rightarrow> time_t \<Rightarrow> bool" where
  "exceeded mn mx rws bts age_s =
     ((age_s > thr_time mn \<and> rws > thr_rows mn \<and> bts > thr_bytes mn)
      \<or> age_s > thr_time mx \<or> rws > thr_rows mx \<or> bts > thr_bytes mx)"

text \<open>The four threshold counters, in the order the branches are tested.\<close>

definition threshold_counters :: "storage \<Rightarrow> nat list" where
  "threshold_counters s =
     [StorageBufferPassedAllMinThresholds s, StorageBufferPassedTimeMaxThreshold s,
      StorageBufferPassedRowsMaxThreshold s, StorageBufferPassedBytesMaxThreshold s]"

text \<open>The index of the first of the four conditions that holds, if any.\<close>

definition first_branch :: "thresholds \<Rightarrow> thresholds \<Rightarrow> nat \<Rightarrow> nat \<Rightarrow> time_t \<Rightarrow> nat option" where
  "first_branch mn mx rws bts age_s =
     (if age_s > thr_time mn \<and> rws > thr_rows mn \<and> bts > thr_bytes mn then Some 0
      else if age_s > thr_time mx then Some 1
      else if rws > thr_rows mx then Some 2
      else if bts > thr_bytes mx then Some 3
      else None)"

definition bump :: "nat option \<Rightarrow> nat list \<Rightarrow> nat list" where
  "bump k cs = (case k of None \<Rightarrow> cs | Some i \<Rightarrow> cs[i := cs ! i + 1])"

section \<open>Appending one block to another\<close>

text \<open>
  A column append (\<open>insertRangeFrom\<close>) or a column cut can throw, for instance when memory
  runs out. The faults say where: \<open>insert_throws = Some k\<close> makes the append into column
  \<open>k\<close> throw, \<open>cut_throws\<close> makes the first \<open>cut\<close> of the rollback throw.

  Modelled from the spec, section 4.1: the column handles (Columns/IColumn.h and
  Common/COW.h are not among the sources). An append adds the rows of the range at the end
  of the column and \<open>cut(0, k)\<close> keeps the first \<open>k\<close> rows. The slots of a block hold
  intrusive pointers to the columns; a pointer that has been moved from is null.
\<close>

record faults =
  insert_throws :: "nat option"
  cut_throws :: bool

definition no_faults :: faults where
  "no_faults = \<lparr>insert_throws = None, cut_throws = False\<rparr>"

text \<open>
  The loop over the columns of \<open>to\<close>. Each turn moves the column out of its slot in the
  block (\<open>IColumn::mutate(std::move(...))\<close>), appends the rows to it and puts it back. When
  the append throws, the column is not put back and its slot stays empty. The loop returns
  the number of the empty slot, if it threw, and the columns as it left them; the entry
  at the empty slot only keeps the positions of the others and is not read again.
\<close>

fun append_columns :: "nat option \<Rightarrow> nat \<Rightarrow> nat \<Rightarrow> block \<Rightarrow> block \<Rightarrow> nat option \<times> block" where
  "append_columns flt rws column_no (f # from) (t # to) =
     (if flt = Some column_no then (Some column_no, t # to)
      else (let (threw, to') = append_columns flt rws (column_no + 1) from to
            in (threw, t\<lparr>col_data := col_data t @ take rws (col_data f)\<rparr> # to')))"
| "append_columns flt rws column_no from to = (None, to)"

text \<open>
  The rollback loop. It reads the size of every column in turn. A column whose size differs
  from \<open>old_rows\<close> is cut back, and a cut that throws ends the process through
  \<open>std::terminate\<close>. At the empty slot the size is read through a null pointer and the
  process dies. Only a loop that meets no empty slot gets to the end, where the exception
  of the append is thrown again.
\<close>

fun rollback :: "bool \<Rightarrow> nat \<Rightarrow> nat \<Rightarrow> nat \<Rightarrow> block \<Rightarrow> error \<times> block" where
  "rollback cut_thr old_rows empty_slot column_no [] = (INSERT_RANGE_FAILED, [])"
| "rollback cut_thr old_rows empty_slot column_no (c # cs) =
     (if column_no = empty_slot then (SEGMENTATION_FAULT, c # cs)
      else if length (col_data c) \<noteq> old_rows
      then (if cut_thr then (TERMINATED, c # cs)
            else (let (e, cs') = rollback cut_thr old_rows empty_slot (column_no + 1) cs
                  in (e, c\<lparr>col_data := take old_rows (col_data c)\<rparr> # cs')))
      else (let (e, cs') = rollback cut_thr old_rows empty_slot (column_no + 1) cs
            in (e, c # cs')))"

text \<open>
  \<open>appendBlock\<close>. After an abnormal end of the process the block and the storage are those
  the process ended with; nothing runs on them.
\<close>

definition appendBlock :: "faults \<Rightarrow> block \<Rightarrow> block \<Rightarrow> storage \<Rightarrow> error option \<times> block \<times> storage" where
  "appendBlock flt from to s =
     (if to = [] then (Some LOGICAL_ERROR, to, s)
      else if \<not> blocksHaveEqualStructure from to then (Some BLOCKS_HAVE_DIFFERENT_STRUCTURE, to, s)
      else if \<not> checkNumberOfRows from \<or> \<not> checkNumberOfRows to
      then (Some SIZES_OF_COLUMNS_DOESNT_MATCH, to, s)
      else
        let rws = rows from;
            bts = bytes from;
            s' = s\<lparr>StorageBufferRows := StorageBufferRows s + int rws,
                   StorageBufferBytes := StorageBufferBytes s + int bts\<rparr>;
            old_rows = rows to;
            (threw, to') = append_columns (insert_throws flt) rws 0 from to
        in (case threw of
              None \<Rightarrow> (None, to', s')
            | Some empty_slot \<Rightarrow>
                (let (e, to'') = rollback (cut_throws flt) old_rows empty_slot 0 to'
                 in (Some e, to'', s'))))"

section \<open>Writing a block to the destination\<close>

text \<open>
  Modelled from the spec: \<open>IStorage::check(block, need_all = true)\<close>, which is not among
  the sources. The block conforms to the engine schema: no column twice, every column of
  the block in the schema with its type, every column of the schema in the block, and all
  columns of one size.
\<close>

definition check :: "header \<Rightarrow> block \<Rightarrow> bool" where
  "check hdr block =
     (distinct (map col_name block) \<and> set (getHeader block) = set hdr \<and> checkNumberOfRows block)"

text \<open>
  The loop over the destination's columns: the columns of the block that the destination
  has, in the destination's order, cast where the types differ, with the warnings logged.
\<close>

fun intersect_columns :: "(column \<Rightarrow> string \<Rightarrow> field list) \<Rightarrow> header \<Rightarrow> block \<Rightarrow> block \<times> log_entry list" where
  "intersect_columns cast [] block = ([], [])"
| "intersect_columns cast ((n, ty) # dst) block =
     (let (cols, warns) = intersect_columns cast dst block
      in case getByName block n of
           None \<Rightarrow> (cols, warns)
         | Some column \<Rightarrow>
             if col_type column \<noteq> ty
             then (column\<lparr>col_type := ty, col_data := cast column ty\<rparr> # cols,
                   Warning_DifferentType n # warns)
             else (column # cols, warns))"

text \<open>
  When the destination is this storage itself, the insert re-enters
  \<open>BufferBlockOutputStream::write\<close>, which leaves in its first lines: it returns on a block
  with no columns or no rows, and throws on a block that fails the schema check or, at the
  latest, on finding that the destination is the storage itself.
\<close>

definition write_into_myself :: "storage \<Rightarrow> block \<Rightarrow> error option" where
  "write_into_myself s block =
     (if block = [] then None
      else if \<not> check (storage_columns s) block then Some CHECK_FAILED
      else if rows block = 0 then None
      else Some INFINITE_LOOP)"

definition writeBlockToDestination :: "block \<Rightarrow> lookup \<Rightarrow> storage \<Rightarrow> error option \<times> storage" where
  "writeBlockToDestination block tbl s =
     (if destination_id s = None \<or> block = [] then (None, s)
      else if tbl = NoSuchTable then (None, s\<lparr>logged := logged s @ [Error_DestinationMissing]\<rparr>)
      else
        let structure_of_destination_table =
              (case tbl of
                 Table t \<Rightarrow> (if allow_materialized s then sample_block t
                             else sample_block_non_materialized t)
               | _ \<Rightarrow> storage_columns s);
            (block_to_write, warns) =
              intersect_columns (castColumn s) structure_of_destination_table block;
            s1 = s\<lparr>logged := logged s @ warns\<rparr>
        in if columns block_to_write = 0
           then (None, s1\<lparr>logged := logged s1 @ [Error_NoCommonColumns]\<rparr>)
           else
             let s2 = (if columns block_to_write \<noteq> columns block
                       then s1\<lparr>logged := logged s1 @ [Warning_ColumnsDiscarded]\<rparr> else s1)
             in (case tbl of
                   Table t \<Rightarrow>
                     (if write_throws t then (Some DESTINATION_FAILED, s2)
                      else (None, s2\<lparr>catalog := Table (t\<lparr>written := written t @ [block_to_write]\<rparr>)\<rparr>))
                 | _ \<Rightarrow> (write_into_myself s2 block_to_write, s2)))"

section \<open>Flushing a shard\<close>

text \<open>
  The buffer is a reference parameter: the function takes the shard and returns it as the
  call leaves it, next to the storage. The mutex has no effect on a sequential run;
  \<open>locked\<close> is kept as the parameter it is.
\<close>

definition flushBuffer :: "storage \<Rightarrow> buffer \<Rightarrow> bool \<Rightarrow> bool \<Rightarrow> time_t \<Rightarrow> error option \<times> storage \<times> buffer" where
  "flushBuffer s buffer check_thresholds locked current_time =
     (let block_to_write = cloneEmpty (data buffer);
          rws = rows (data buffer);
          bts = bytes (data buffer);
          time_passed = (if first_write_time buffer \<noteq> 0
                         then current_time - first_write_time buffer else 0);
          (proceed, s1) = (if check_thresholds then checkThresholdsImpl s rws bts time_passed
                           else (rws \<noteq> 0, s))
      in if \<not> proceed then (None, s1, buffer)
         else
           let swapped = data buffer;
               buffer1 = buffer\<lparr>data := block_to_write, first_write_time := 0\<rparr>;
               block_to_write = swapped;
               s2 = s1\<lparr>StorageBufferRows := StorageBufferRows s1 - int (rows block_to_write),
                       StorageBufferBytes := StorageBufferBytes s1 - int (bytes block_to_write),
                       StorageBufferFlush := StorageBufferFlush s1 + 1,
                       logged := logged s1 @ [Trace_Flushing rws bts time_passed check_thresholds]\<rparr>
           in if destination_id s2 = None then (None, s2, buffer1)
              else
                (case writeBlockToDestination block_to_write (tryGetTable s2) s2 of
                  (None, s3) \<Rightarrow> (None, s3, buffer1)
                | (Some e, s3) \<Rightarrow>
                    let s4 = s3\<lparr>StorageBufferErrorOnFlush := StorageBufferErrorOnFlush s3 + 1,
                                StorageBufferRows := StorageBufferRows s3 + int (rows block_to_write),
                                StorageBufferBytes := StorageBufferBytes s3 + int (bytes block_to_write)\<rparr>;
                        buffer2 = buffer1\<lparr>data := block_to_write\<rparr>;
                        buffer3 = (if first_write_time buffer2 = 0
                                   then buffer2\<lparr>first_write_time := current_time\<rparr> else buffer2)
                    in (Some e, s4, buffer3)))"

text \<open>
  \<open>flushAllBuffers\<close> walks the shards in order and stops at the first flush that throws.
  Every flush reads the clock itself: \<open>clock k\<close> is the time the flush of shard \<open>k\<close> sees.
\<close>

fun flush_from :: "storage \<Rightarrow> bool \<Rightarrow> (nat \<Rightarrow> time_t) \<Rightarrow> nat \<Rightarrow> buffer list \<Rightarrow> error option \<times> storage \<times> buffer list" where
  "flush_from s check_thresholds clock k [] = (None, s, [])"
| "flush_from s check_thresholds clock k (buf # bufs) =
     (case flushBuffer s buf check_thresholds False (clock k) of
        (Some e, s', buf') \<Rightarrow> (Some e, s', buf' # bufs)
      | (None, s', buf') \<Rightarrow>
          (let (r, s'', bufs') = flush_from s' check_thresholds clock (k + 1) bufs
           in (r, s'', buf' # bufs')))"

definition flushAllBuffers :: "storage \<Rightarrow> bool \<Rightarrow> (nat \<Rightarrow> time_t) \<Rightarrow> error option \<times> storage" where
  "flushAllBuffers s check_thresholds clock =
     (let (r, s', bufs') = flush_from s check_thresholds clock 0 (buffers s)
      in (r, s'\<lparr>buffers := bufs'\<rparr>))"

definition optimize :: "storage \<Rightarrow> bool \<Rightarrow> bool \<Rightarrow> bool \<Rightarrow> (nat \<Rightarrow> time_t) \<Rightarrow> error option \<times> storage" where
  "optimize s partition_given final deduplicate clock =
     (if partition_given then (Some NOT_IMPLEMENTED, s)
      else if final then (Some NOT_IMPLEMENTED, s)
      else if deduplicate then (Some NOT_IMPLEMENTED, s)
      else flushAllBuffers s False clock)"

section \<open>The background scheduler\<close>

text \<open>
  The scan of \<open>reschedule\<close>: it starts from the largest \<open>time_t\<close> and zero rows and
  visits the shards in order.
\<close>

definition time_t_max :: time_t where
  "time_t_max = 2 ^ 63 - 1"

fun scan_buffers :: "time_t \<times> nat \<Rightarrow> buffer list \<Rightarrow> time_t \<times> nat" where
  "scan_buffers (min_first_write_time, rws) [] = (min_first_write_time, rws)"
| "scan_buffers (min_first_write_time, rws) (buffer # bufs) =
     scan_buffers (first_write_time buffer, rws + rows (data buffer)) bufs"

definition reschedule :: "storage \<Rightarrow> time_t \<Rightarrow> storage" where
  "reschedule s current_time =
     (let (min_first_write_time, rws) = scan_buffers (time_t_max, 0) (buffers s)
      in if rws = 0 then s
         else
           let time_passed = current_time - min_first_write_time;
               mn = max (thr_time (min_thresholds s) - time_passed) 1;
               mx = max (thr_time (max_thresholds s) - time_passed) 1
           in s\<lparr>scheduled := Some (min mn mx * 1000)\<rparr>)"

text \<open>\<open>flushBack\<close> logs a failure of the flush and goes on to reschedule.\<close>

definition flushBack :: "storage \<Rightarrow> (nat \<Rightarrow> time_t) \<Rightarrow> time_t \<Rightarrow> storage" where
  "flushBack s clock reschedule_time =
     reschedule (snd (flushAllBuffers s True clock)) reschedule_time"

section \<open>The writer\<close>

definition insertIntoBuffer :: "storage \<Rightarrow> block \<Rightarrow> buffer \<Rightarrow> time_t \<Rightarrow> time_t \<Rightarrow> faults \<Rightarrow> error option \<times> storage \<times> buffer" where
  "insertIntoBuffer s block buffer current_time flush_time flt =
     (let sorted_block = sortColumns block;
          (r1, s1, buffer1) =
            (if data buffer = [] then (None, s, buffer\<lparr>data := cloneEmpty sorted_block\<rparr>)
             else (case checkThresholds s buffer current_time (rows sorted_block) (bytes sorted_block) of
                     (True, s') \<Rightarrow> flushBuffer s' buffer False True flush_time
                   | (False, s') \<Rightarrow> (None, s', buffer)))
      in (case r1 of
            Some e \<Rightarrow> (Some e, s1, buffer1)
          | None \<Rightarrow>
              (let buffer2 = (if first_write_time buffer1 = 0
                              then buffer1\<lparr>first_write_time := current_time\<rparr> else buffer1);
                   (r, to', s2) = appendBlock flt sorted_block (data buffer2) s1
               in (r, s2, buffer2\<lparr>data := to'\<rparr>))))"

text \<open>
  What one call of the writer takes from its environment: the thread id, which shard
  mutexes \<open>try_to_lock\<close> gets, the clock as the insert, the inline flush and the reschedule
  read it, and the faults of the append.
\<close>

record write_env =
  thread_id :: nat
  owns_lock :: "nat \<Rightarrow> bool"
  insert_time :: time_t
  flush_time :: time_t
  reschedule_time :: time_t
  append_faults :: faults

text \<open>
  The walk over the shards, no more than one lap: \<open>best\<close> is the least busy shard locked so
  far with its row count.
\<close>

fun least_busy :: "storage \<Rightarrow> (nat \<Rightarrow> bool) \<Rightarrow> nat \<Rightarrow> nat \<Rightarrow> (nat \<times> nat) option \<Rightarrow> (nat \<times> nat) option" where
  "least_busy s owns 0 shard_num best = best"
| "least_busy s owns (Suc tries) shard_num best =
     (let best' =
            (if owns shard_num
             then (let num_rows = rows (data (buffers s ! shard_num))
                   in (case best of
                         None \<Rightarrow> Some (shard_num, num_rows)
                       | Some (_, least_busy_shard_rows) \<Rightarrow>
                           if num_rows < least_busy_shard_rows then Some (shard_num, num_rows)
                           else best))
             else best)
      in least_busy s owns tries ((shard_num + 1) mod num_shards s) best')"

text \<open>
  The writer, \<open>BufferBlockOutputStream::write\<close>. With no shard at all the shard number
  is a remainder by zero, which ends the process; shard numbers are remainders by
  \<open>num_shards\<close> otherwise, so every read of \<open>buffers\<close> is in range.
\<close>

definition write_block :: "storage \<Rightarrow> write_env \<Rightarrow> block \<Rightarrow> error option \<times> storage" where
  "write_block s env block =
     (if block = [] then (None, s)
      else if \<not> check (storage_columns s) block then (Some CHECK_FAILED, s)
      else
        let rws = rows block
        in if rws = 0 then (None, s)
           else if destination_id s \<noteq> None \<and> tryGetTable s = Myself then (Some INFINITE_LOOP, s)
           else
             let bts = bytes block
             in if rws > thr_rows (max_thresholds s) \<or> bts > thr_bytes (max_thresholds s)
                then (if destination_id s \<noteq> None
                      then writeBlockToDestination block (tryGetTable s)
                             (s\<lparr>logged := logged s @ [Trace_WritingDirectly rws bts]\<rparr>)
                      else (None, s))
                else if num_shards s = 0 then (Some TERMINATED, s)
                else
                  let start_shard_num = thread_id env mod num_shards s;
                      shard = (case least_busy s (owns_lock env) (num_shards s) start_shard_num None of
                                 None \<Rightarrow> start_shard_num
                               | Some (i, _) \<Rightarrow> i);
                      (r, s1, buffer') =
                        insertIntoBuffer s block (buffers s ! shard) (insert_time env)
                          (flush_time env) (append_faults env);
                      s2 = s1\<lparr>buffers := (buffers s1)[shard := buffer']\<rparr>
                  in (case r of
                        Some e \<Rightarrow> (Some e, s2)
                      | None \<Rightarrow> (None, reschedule s2 (reschedule_time env))))"

text \<open>A sequence of writes, stopping at the first that throws.\<close>

fun write_all :: "storage \<Rightarrow> (write_env \<times> block) list \<Rightarrow> error option \<times> storage" where
  "write_all s [] = (None, s)"
| "write_all s ((env, block) # ws) =
     (case write_block s env block of
        (Some e, s') \<Rightarrow> (Some e, s')
      | (None, s') \<Rightarrow> write_all s' ws)"

definition writes_then_optimize :: "storage \<Rightarrow> (write_env \<times> block) list \<Rightarrow> (nat \<Rightarrow> time_t) \<Rightarrow> error option \<times> storage" where
  "writes_then_optimize s ws clock =
     (case write_all s ws of
        (Some e, s') \<Rightarrow> (Some e, s')
      | (None, s') \<Rightarrow> optimize s' False False False clock)"

section \<open>Totals\<close>

text \<open>
  \<open>totalRows\<close> asks the destination for its own total. When the destination is this storage
  itself that is the same call again, on the same state, so the function is partial:
  \<open>None\<close> is a call that does not return, \<open>Some None\<close> the answer "unknown".
\<close>

partial_function (option) totalRows :: "storage \<Rightarrow> nat option option" where
  "totalRows s =
     Option.bind
       (if tryGetTable s = Myself then totalRows s
        else Some (case tryGetTable s of Table t \<Rightarrow> reported_rows t | _ \<Rightarrow> None))
       (\<lambda>underlying_rows.
          case underlying_rows of
            None \<Rightarrow> Some None
          | Some n \<Rightarrow> Some (Some (sum_list (map (\<lambda>buffer. rows (data buffer)) (buffers s)) + n)))"

definition totalBytes :: "storage \<Rightarrow> nat option" where
  "totalBytes s = Some (sum_list (map (\<lambda>buffer. bytes (data buffer)) (buffers s)))"

section \<open>Notions the properties are stated with\<close>

text \<open>
  The age a flush computes for a shard, the gate of \<open>flushBuffer\<close> as the code has it
  (the threshold predicate when thresholds are checked, a non-zero row count otherwise),
  and the states a flush goes through: after the gate, after the swap.
\<close>

definition age :: "buffer \<Rightarrow> time_t \<Rightarrow> time_t" where
  "age buffer now = (if first_write_time buffer \<noteq> 0 then now - first_write_time buffer else 0)"

definition proceeds :: "storage \<Rightarrow> buffer \<Rightarrow> bool \<Rightarrow> time_t \<Rightarrow> bool" where
  "proceeds s buffer check_thresholds now =
     (if check_thresholds
      then exceeded (min_thresholds s) (max_thresholds s) (rows (data buffer)) (bytes (data buffer)) (age buffer now)
      else rows (data buffer) \<noteq> 0)"

definition after_gate :: "storage \<Rightarrow> buffer \<Rightarrow> bool \<Rightarrow> time_t \<Rightarrow> storage" where
  "after_gate s buffer check_thresholds now =
     (if check_thresholds
      then snd (checkThresholdsImpl s (rows (data buffer)) (bytes (data buffer)) (age buffer now))
      else s)"

definition swapped_out :: "storage \<Rightarrow> buffer \<Rightarrow> bool \<Rightarrow> time_t \<Rightarrow> storage" where
  "swapped_out s buffer check_thresholds now =
     (let s1 = after_gate s buffer check_thresholds now
      in s1\<lparr>StorageBufferRows := StorageBufferRows s1 - int (rows (data buffer)),
            StorageBufferBytes := StorageBufferBytes s1 - int (bytes (data buffer)),
            StorageBufferFlush := StorageBufferFlush s1 + 1,
            logged := logged s1 @ [Trace_Flushing (rows (data buffer)) (bytes (data buffer))
                                     (age buffer now) check_thresholds]\<rparr>)"

definition emptied :: "buffer \<Rightarrow> buffer" where
  "emptied buffer = buffer\<lparr>data := cloneEmpty (data buffer), first_write_time := 0\<rparr>"

definition destination_structure :: "storage \<Rightarrow> table \<Rightarrow> header" where
  "destination_structure s t =
     (if allow_materialized s then sample_block t else sample_block_non_materialized t)"

text \<open>
  The scenario of the spec, section 8: two shards, thresholds min = (1 s, 10, 100) and
  max = (60 s, 100, 10000), a destination that is present.
\<close>

definition example_min :: thresholds where
  "example_min = \<lparr>thr_time = 1, thr_rows = 10, thr_bytes = 100\<rparr>"

definition example_max :: thresholds where
  "example_max = \<lparr>thr_time = 60, thr_rows = 100, thr_bytes = 10000\<rparr>"

definition example_table :: table where
  "example_table =
     \<lparr>sample_block = [(''k'', ''Int64''), (''v'', ''String'')],
      sample_block_non_materialized = [(''k'', ''Int64''), (''v'', ''String'')],
      reported_rows = Some 7, write_throws = False, written = []\<rparr>"

definition example_storage :: storage where
  "example_storage =
     \<lparr>buffers = [\<lparr>first_write_time = 0, data = []\<rparr>, \<lparr>first_write_time = 0, data = []\<rparr>],
      min_thresholds = example_min, max_thresholds = example_max,
      destination_id = Some ''db.dst'', allow_materialized = False,
      storage_columns = [(''k'', ''Int64''), (''v'', ''String'')],
      castColumn = (\<lambda>c ty. col_data c),
      catalog = Table example_table,
      StorageBufferRows = 0, StorageBufferBytes = 0, StorageBufferFlush = 0,
      StorageBufferErrorOnFlush = 0, StorageBufferPassedAllMinThresholds = 0,
      StorageBufferPassedTimeMaxThreshold = 0, StorageBufferPassedRowsMaxThreshold = 0,
      StorageBufferPassedBytesMaxThreshold = 0, logged = [], scheduled = None\<rparr>"

definition kv_block :: "int list \<Rightarrow> string list \<Rightarrow> block" where
  "kv_block ks vs =
     [\<lparr>col_name = ''k'', col_type = ''Int64'', col_data = map Int64 ks\<rparr>,
      \<lparr>col_name = ''v'', col_type = ''String'', col_data = map String vs\<rparr>]"

text \<open>The message the destination write logs when it discards a block.\<close>

definition discard_message :: "lookup \<Rightarrow> log_entry" where
  "discard_message tbl = (if tbl = NoSuchTable then Error_DestinationMissing else Error_NoCommonColumns)"

text \<open>
  The deadline of the spec, section 4.6, written from its words: the age is taken from the
  oldest, that is the least, first write time across the shards, and the next fire comes
  after \<open>max(1, min(min.time - age, max.time - age))\<close> seconds, or not at all when the
  shards hold no rows.
\<close>

definition oldest_first_write_time :: "buffer list \<Rightarrow> time_t" where
  "oldest_first_write_time bufs = fold min (map first_write_time bufs) time_t_max"

definition next_fire_seconds :: "storage \<Rightarrow> time_t \<Rightarrow> int option" where
  "next_fire_seconds s now =
     (if sum_list (map (\<lambda>b. rows (data b)) (buffers s)) = 0 then None
      else
        let age_s = now - oldest_first_write_time (buffers s)
        in Some (max 1 (min (thr_time (min_thresholds s) - age_s)
                            (thr_time (max_thresholds s) - age_s))))"

definition two_shards :: storage where
  "two_shards =
     example_storage
       \<lparr>buffers := [\<lparr>first_write_time = 100, data = kv_block [1] [''a'']\<rparr>,
                    \<lparr>first_write_time = 105, data = kv_block [2] [''b'']\<rparr>],
        min_thresholds := \<lparr>thr_time = 10, thr_rows = 10, thr_bytes = 100\<rparr>,
        StorageBufferRows := 2, StorageBufferBytes := 36\<rparr>"

text \<open>An environment for one write: every mutex is free, the clock reads 200, no fault.\<close>

definition example_env :: write_env where
  "example_env =
     \<lparr>thread_id = 0, owns_lock = (\<lambda>_. True), insert_time = 200, flush_time = 200,
      reschedule_time = 200, append_faults = no_faults\<rparr>"

definition small_max :: storage where
  "small_max = example_storage\<lparr>max_thresholds := \<lparr>thr_time = 60, thr_rows = 1, thr_bytes = 10000\<rparr>\<rparr>"

text \<open>A block with the columns in the order v, k, and a shard that holds six rows.\<close>

definition vk_block :: "string list \<Rightarrow> int list \<Rightarrow> block" where
  "vk_block vs ks =
     [\<lparr>col_name = ''v'', col_type = ''String'', col_data = map String vs\<rparr>,
      \<lparr>col_name = ''k'', col_type = ''Int64'', col_data = map Int64 ks\<rparr>]"

definition six_rows :: buffer where
  "six_rows =
     \<lparr>first_write_time = 198,
      data = kv_block [1, 2, 3, 4, 5, 6] [''a'', ''b'', ''c'', ''d'', ''e'', ''f'']\<rparr>"

definition six_more :: block where
  "six_more = vk_block [''u'', ''v'', ''w'', ''x'', ''y'', ''z''] [7, 8, 9, 10, 11, 12]"

text \<open>The columns of \<open>to\<close> after every column has taken the rows of its column of \<open>from\<close>.\<close>

definition appended :: "block \<Rightarrow> block \<Rightarrow> block" where
  "appended from to =
     map (\<lambda>(t, f). t\<lparr>col_data := col_data t @ take (rows from) (col_data f)\<rparr>) (zip to from)"

text \<open>
  A row of a block assigns a value to every column name of the block; the rows of a block
  form a multiset, which does not depend on the order of the columns.
\<close>

definition row_at :: "block \<Rightarrow> nat \<Rightarrow> (string \<Rightarrow> field option)" where
  "row_at b i = map_of (map (\<lambda>c. (col_name c, col_data c ! i)) b)"

definition rows_of :: "block \<Rightarrow> (string \<Rightarrow> field option) multiset" where
  "rows_of b = mset (map (row_at b) [0..<rows b])"

text \<open>
  What the destination has received, as a multiset of rows, and what the shards hold.
\<close>

definition delivered :: "storage \<Rightarrow> (string \<Rightarrow> field option) multiset" where
  "delivered s = (case catalog s of Table t \<Rightarrow> sum_list (map rows_of (written t)) | _ \<Rightarrow> {#})"

definition held :: "buffer list \<Rightarrow> (string \<Rightarrow> field option) multiset" where
  "held bufs = sum_list (map (\<lambda>b. rows_of (data b)) bufs)"

text \<open>
  The destination serves the storage: a destination is configured and resolved, an insert
  into it does not throw, and its structure has every column of the engine, under its
  name once and with the engine's type.
\<close>

definition destination_serves :: "storage \<Rightarrow> bool" where
  "destination_serves s =
     (destination_id s \<noteq> None \<and> distinct (map fst (storage_columns s))
      \<and> (case catalog s of
            Table t \<Rightarrow> \<not> write_throws t
                       \<and> set (storage_columns s) \<subseteq> set (destination_structure s t)
                       \<and> distinct (map fst (destination_structure s t))
          | _ \<Rightarrow> False))"

text \<open>
  A shard is well-formed for a schema: it has never been written, or its block has the
  columns of the schema in the order of their names, all of one size.
\<close>

definition shard_ok :: "header \<Rightarrow> buffer \<Rightarrow> bool" where
  "shard_ok hdr b =
     (data b = [] \<or> (getHeader (data b) = sort_key fst hdr \<and> checkNumberOfRows (data b)))"

text \<open>The destination without the blocks it has received.\<close>

definition catalog_static :: "lookup \<Rightarrow> lookup" where
  "catalog_static l = (case l of Table t \<Rightarrow> Table (t\<lparr>written := []\<rparr>) | _ \<Rightarrow> l)"

text \<open>Two states of one storage: the settings and the destination are the same.\<close>

definition same_setup :: "storage \<Rightarrow> storage \<Rightarrow> bool" where
  "same_setup s s' =
     (destination_id s' = destination_id s \<and> allow_materialized s' = allow_materialized s
      \<and> storage_columns s' = storage_columns s \<and> castColumn s' = castColumn s
      \<and> min_thresholds s' = min_thresholds s \<and> max_thresholds s' = max_thresholds s
      \<and> catalog_static (catalog s') = catalog_static (catalog s))"

text \<open>
  The first half of \<open>insertIntoBuffer\<close>: the shard and the storage as the append finds them,
  after the empty shard has taken the header or the full one has been flushed.
\<close>

definition before_append :: "storage \<Rightarrow> block \<Rightarrow> buffer \<Rightarrow> time_t \<Rightarrow> time_t \<Rightarrow> error option \<times> storage \<times> buffer" where
  "before_append s block buffer current_time flush_now =
     (if data buffer = [] then (None, s, buffer\<lparr>data := cloneEmpty (sortColumns block)\<rparr>)
      else (case checkThresholds s buffer current_time (rows (sortColumns block)) (bytes (sortColumns block)) of
              (True, s') \<Rightarrow> flushBuffer s' buffer False True flush_now
            | (False, s') \<Rightarrow> (None, s', buffer)))"

text \<open>The shard the writer picks: the least busy it could lock, or else the one it started at.\<close>

definition chosen_shard :: "storage \<Rightarrow> write_env \<Rightarrow> nat" where
  "chosen_shard s env =
     (case least_busy s (owns_lock env) (num_shards s) (thread_id env mod num_shards s) None of
        None \<Rightarrow> thread_id env mod num_shards s
      | Some (i, _) \<Rightarrow> i)"

text \<open>
  The engine is in order: the destination serves it, it has a shard, and every shard is
  well-formed for the engine's schema.
\<close>

definition engine_ok :: "storage \<Rightarrow> bool" where
  "engine_ok s =
     (destination_serves s \<and> buffers s \<noteq> []
      \<and> list_all (shard_ok (storage_columns s)) (buffers s))"

text \<open>
  A sequence of writes the guarantee is about: every block matches the engine's schema and
  no column append of its write throws.
\<close>

definition admissible :: "header \<Rightarrow> (write_env \<times> block) list \<Rightarrow> bool" where
  "admissible hdr ws =
     list_all (\<lambda>(env, block). check hdr block \<and> insert_throws (append_faults env) = None) ws"

definition rows_written :: "(write_env \<times> block) list \<Rightarrow> (string \<Rightarrow> field option) multiset" where
  "rows_written ws = sum_list (map (\<lambda>(env, block). rows_of block) ws)"

text \<open>
  Two writes for the scenario, each well under the maximum thresholds, and a destination
  that is present and never throws but has none of the engine's columns.
\<close>

definition two_writes :: "(write_env \<times> block) list" where
  "two_writes = [(example_env, six_more), (example_env, kv_block [1, 2] [''a'', ''b''])]"

definition foreign_table :: table where
  "foreign_table =
     example_table\<lparr>sample_block := [(''x'', ''Int64'')],
                   sample_block_non_materialized := [(''x'', ''Int64'')]\<rparr>"

definition foreign_storage :: storage where
  "foreign_storage = example_storage\<lparr>catalog := Table foreign_table\<rparr>"

text \<open>
  A write whose append throws at the second column; the clock reads 102, so that no
  threshold is passed.
\<close>

definition failing_env :: write_env where
  "failing_env =
     example_env\<lparr>insert_time := 102,
                 append_faults := \<lparr>insert_throws = Some 1, cut_throws = False\<rparr>\<rparr>"

text \<open>
  The flush that \<open>insertIntoBuffer\<close> calls on a shard that holds rows once the thresholds
  are passed with the incoming block counted in: \<open>flushBuffer\<close> with \<open>check_thresholds\<close>
  false and \<open>locked\<close> true, in the storage as the threshold check left its counters.
\<close>

definition inline_flush :: "storage \<Rightarrow> block \<Rightarrow> buffer \<Rightarrow> time_t \<Rightarrow> time_t \<Rightarrow> error option \<times> storage \<times> buffer" where
  "inline_flush s block buffer now flush_now =
     flushBuffer (snd (checkThresholds s buffer now (rows (sortColumns block)) (bytes (sortColumns block))))
       buffer False True flush_now"

text \<open>The storage of the scenario in front of a destination whose write throws.\<close>

definition refusing_storage :: storage where
  "refusing_storage = example_storage\<lparr>catalog := Table (example_table\<lparr>write_throws := True\<rparr>)\<rparr>"

section \<open>Auxiliary facts\<close>

subsection \<open>The gate and the two outcomes of a flush\<close>

lemma checkThresholdsImpl_fst:
  "fst (checkThresholdsImpl s r b a) = exceeded (min_thresholds s) (max_thresholds s) r b a"
  by (simp add: checkThresholdsImpl_def exceeded_def)

lemma checkThresholdsImpl_False:
  "\<not> exceeded (min_thresholds s) (max_thresholds s) r b a \<Longrightarrow> checkThresholdsImpl s r b a = (False, s)"
  by (simp add: checkThresholdsImpl_def exceeded_def)

lemma checkThresholdsImpl_frame:
  "buffers (snd (checkThresholdsImpl s r b a)) = buffers s"
  "min_thresholds (snd (checkThresholdsImpl s r b a)) = min_thresholds s"
  "max_thresholds (snd (checkThresholdsImpl s r b a)) = max_thresholds s"
  "destination_id (snd (checkThresholdsImpl s r b a)) = destination_id s"
  "allow_materialized (snd (checkThresholdsImpl s r b a)) = allow_materialized s"
  "storage_columns (snd (checkThresholdsImpl s r b a)) = storage_columns s"
  "castColumn (snd (checkThresholdsImpl s r b a)) = castColumn s"
  "catalog (snd (checkThresholdsImpl s r b a)) = catalog s"
  "StorageBufferRows (snd (checkThresholdsImpl s r b a)) = StorageBufferRows s"
  "StorageBufferBytes (snd (checkThresholdsImpl s r b a)) = StorageBufferBytes s"
  "StorageBufferFlush (snd (checkThresholdsImpl s r b a)) = StorageBufferFlush s"
  "StorageBufferErrorOnFlush (snd (checkThresholdsImpl s r b a)) = StorageBufferErrorOnFlush s"
  "logged (snd (checkThresholdsImpl s r b a)) = logged s"
  "scheduled (snd (checkThresholdsImpl s r b a)) = scheduled s"
  by (simp_all add: checkThresholdsImpl_def)

lemma tryGetTable_cong:
  "destination_id s' = destination_id s \<Longrightarrow> catalog s' = catalog s \<Longrightarrow> tryGetTable s' = tryGetTable s"
  by (simp add: tryGetTable_def split: option.splits)

lemma flushBuffer_gate_closed:
  assumes "\<not> proceeds s buffer check_thresholds now"
  shows "flushBuffer s buffer check_thresholds locked now = (None, s, buffer)"
proof (cases check_thresholds)
  case True
  with assms have "checkThresholdsImpl s (rows (data buffer)) (bytes (data buffer))
      (if first_write_time buffer \<noteq> 0 then now - first_write_time buffer else 0) = (False, s)"
    by (intro checkThresholdsImpl_False) (simp add: proceeds_def age_def)
  with True show ?thesis
    by (simp add: flushBuffer_def Let_def)
next
  case False
  with assms show ?thesis
    by (simp add: flushBuffer_def Let_def proceeds_def)
qed

lemma flushBuffer_gate_open:
  assumes "proceeds s buffer check_thresholds now"
  shows "flushBuffer s buffer check_thresholds locked now =
     (let s2 = swapped_out s buffer check_thresholds now
      in if destination_id s = None then (None, s2, emptied buffer)
         else (case writeBlockToDestination (data buffer) (tryGetTable s) s2 of
                 (None, s3) \<Rightarrow> (None, s3, emptied buffer)
               | (Some e, s3) \<Rightarrow>
                   (Some e,
                    s3\<lparr>StorageBufferErrorOnFlush := StorageBufferErrorOnFlush s3 + 1,
                       StorageBufferRows := StorageBufferRows s3 + int (rows (data buffer)),
                       StorageBufferBytes := StorageBufferBytes s3 + int (bytes (data buffer))\<rparr>,
                    buffer\<lparr>first_write_time := now\<rparr>)))"
proof (cases check_thresholds)
  case True
  obtain s1 where g: "checkThresholdsImpl s (rows (data buffer)) (bytes (data buffer)) (age buffer now) = (True, s1)"
    using assms True checkThresholdsImpl_fst[of s "rows (data buffer)" "bytes (data buffer)" "age buffer now"]
    by (cases "checkThresholdsImpl s (rows (data buffer)) (bytes (data buffer)) (age buffer now)")
       (simp add: proceeds_def)
  have fr: "destination_id s1 = destination_id s" "catalog s1 = catalog s"
    using checkThresholdsImpl_frame(4,8)[of s "rows (data buffer)" "bytes (data buffer)" "age buffer now"] g
    by simp_all
  have t: "tryGetTable (swapped_out s buffer True now) = tryGetTable s"
    by (rule tryGetTable_cong) (simp_all add: swapped_out_def after_gate_def Let_def g fr)
  show ?thesis
    using True g fr t
    by (simp add: flushBuffer_def Let_def age_def[symmetric] swapped_out_def after_gate_def emptied_def
        tryGetTable_def split: prod.split option.split)
next
  case False
  have t: "tryGetTable (swapped_out s buffer False now) = tryGetTable s"
    by (rule tryGetTable_cong) (simp_all add: swapped_out_def after_gate_def Let_def)
  show ?thesis
    using False assms t
    by (simp add: flushBuffer_def Let_def age_def[symmetric] swapped_out_def after_gate_def emptied_def
        proceeds_def tryGetTable_def split: prod.split option.split)
qed

lemma writeBlockToDestination_fst_cong:
  assumes "destination_id s' = destination_id s" "allow_materialized s' = allow_materialized s"
    "castColumn s' = castColumn s" "storage_columns s' = storage_columns s"
  shows "fst (writeBlockToDestination block tbl s') = fst (writeBlockToDestination block tbl s)"
  using assms
  by (cases tbl)
     (simp_all add: writeBlockToDestination_def Let_def write_into_myself_def split: prod.split)

lemma writeBlockToDestination_frame:
  "buffers (snd (writeBlockToDestination block tbl s)) = buffers s"
  "min_thresholds (snd (writeBlockToDestination block tbl s)) = min_thresholds s"
  "max_thresholds (snd (writeBlockToDestination block tbl s)) = max_thresholds s"
  "destination_id (snd (writeBlockToDestination block tbl s)) = destination_id s"
  "allow_materialized (snd (writeBlockToDestination block tbl s)) = allow_materialized s"
  "storage_columns (snd (writeBlockToDestination block tbl s)) = storage_columns s"
  "castColumn (snd (writeBlockToDestination block tbl s)) = castColumn s"
  "StorageBufferRows (snd (writeBlockToDestination block tbl s)) = StorageBufferRows s"
  "StorageBufferBytes (snd (writeBlockToDestination block tbl s)) = StorageBufferBytes s"
  "StorageBufferFlush (snd (writeBlockToDestination block tbl s)) = StorageBufferFlush s"
  "StorageBufferErrorOnFlush (snd (writeBlockToDestination block tbl s)) = StorageBufferErrorOnFlush s"
  "scheduled (snd (writeBlockToDestination block tbl s)) = scheduled s"
  by (cases tbl; simp add: writeBlockToDestination_def Let_def split: prod.split)+

lemma writeBlockToDestination_failed_catalog:
  "fst (writeBlockToDestination block tbl s) = Some e \<Longrightarrow>
   catalog (snd (writeBlockToDestination block tbl s)) = catalog s"
proof (cases "intersect_columns (castColumn s)
      (case tbl of Table t \<Rightarrow> (if allow_materialized s then sample_block t
                             else sample_block_non_materialized t)
               | _ \<Rightarrow> storage_columns s) block")
  case (Pair btw warns)
  assume "fst (writeBlockToDestination block tbl s) = Some e"
  with Pair show ?thesis
    by (cases tbl) (simp_all add: writeBlockToDestination_def Let_def split: if_splits)
qed

lemma after_gate_frame:
  "destination_id (after_gate s buffer c now) = destination_id s"
  "allow_materialized (after_gate s buffer c now) = allow_materialized s"
  "storage_columns (after_gate s buffer c now) = storage_columns s"
  "castColumn (after_gate s buffer c now) = castColumn s"
  "catalog (after_gate s buffer c now) = catalog s"
  "StorageBufferRows (after_gate s buffer c now) = StorageBufferRows s"
  "StorageBufferBytes (after_gate s buffer c now) = StorageBufferBytes s"
  "StorageBufferFlush (after_gate s buffer c now) = StorageBufferFlush s"
  "StorageBufferErrorOnFlush (after_gate s buffer c now) = StorageBufferErrorOnFlush s"
  "logged (after_gate s buffer c now) = logged s"
  "buffers (after_gate s buffer c now) = buffers s"
  "min_thresholds (after_gate s buffer c now) = min_thresholds s"
  "max_thresholds (after_gate s buffer c now) = max_thresholds s"
  "scheduled (after_gate s buffer c now) = scheduled s"
  by (simp_all add: after_gate_def checkThresholdsImpl_frame)

lemma swapped_out_frame:
  "destination_id (swapped_out s buffer c now) = destination_id s"
  "allow_materialized (swapped_out s buffer c now) = allow_materialized s"
  "storage_columns (swapped_out s buffer c now) = storage_columns s"
  "castColumn (swapped_out s buffer c now) = castColumn s"
  "catalog (swapped_out s buffer c now) = catalog s"
  "StorageBufferRows (swapped_out s buffer c now) = StorageBufferRows s - int (rows (data buffer))"
  "StorageBufferBytes (swapped_out s buffer c now) = StorageBufferBytes s - int (bytes (data buffer))"
  "StorageBufferFlush (swapped_out s buffer c now) = StorageBufferFlush s + 1"
  "StorageBufferErrorOnFlush (swapped_out s buffer c now) = StorageBufferErrorOnFlush s"
  "logged (swapped_out s buffer c now) = logged s @ [Trace_Flushing (rows (data buffer)) (bytes (data buffer)) (age buffer now) c]"
  "buffers (swapped_out s buffer c now) = buffers s"
  "min_thresholds (swapped_out s buffer c now) = min_thresholds s"
  "max_thresholds (swapped_out s buffer c now) = max_thresholds s"
  "scheduled (swapped_out s buffer c now) = scheduled s"
  by (simp_all add: swapped_out_def Let_def after_gate_frame)

lemma writeBlockToDestination_no_destination:
  "destination_id s = None \<or> block = [] \<Longrightarrow> writeBlockToDestination block tbl s = (None, s)"
  by (simp add: writeBlockToDestination_def)

lemmas example_defs = example_storage_def example_table_def example_min_def example_max_def
  kv_block_def

subsection \<open>Destinations that discard\<close>

lemma getByName_None:
  "n \<notin> set (map col_name block) \<Longrightarrow> getByName block n = None"
  by (auto simp: getByName_def find_None_iff)

lemma intersect_columns_disjoint:
  "set (map fst dst) \<inter> set (map col_name block) = {} \<Longrightarrow>
   intersect_columns cast dst block = ([], [])"
proof (induction dst)
  case Nil
  then show ?case by simp
next
  case (Cons a dst)
  obtain n ty where a: "a = (n, ty)" by (cases a)
  from Cons.prems have "n \<notin> set (map col_name block)" by (auto simp: a)
  then have g: "getByName block n = None" by (rule getByName_None)
  from Cons.prems have "set (map fst dst) \<inter> set (map col_name block) = {}" by auto
  with Cons.IH g show ?case by (simp add: a)
qed

lemma writeBlockToDestination_missing:
  "destination_id s \<noteq> None \<Longrightarrow> block \<noteq> [] \<Longrightarrow>
   writeBlockToDestination block NoSuchTable s
     = (None, s\<lparr>logged := logged s @ [Error_DestinationMissing]\<rparr>)"
  by (auto simp: writeBlockToDestination_def)

lemma writeBlockToDestination_no_common:
  assumes "destination_id s \<noteq> None" "block \<noteq> []"
    and "set (map fst (destination_structure s t)) \<inter> set (map col_name block) = {}"
  shows "writeBlockToDestination block (Table t) s
     = (None, s\<lparr>logged := logged s @ [Error_NoCommonColumns]\<rparr>)"
proof -
  have "intersect_columns (castColumn s) (destination_structure s t) block = ([], [])"
    using assms(3) by (rule intersect_columns_disjoint)
  then show ?thesis
    using assms(1,2)
    by (auto simp: writeBlockToDestination_def destination_structure_def Let_def columns_def)
qed

subsection \<open>The scan of the scheduler and the totals\<close>

lemma scan_buffers_eq:
  "scan_buffers (m, r) bufs =
     (if bufs = [] then m else first_write_time (last bufs),
      r + sum_list (map (\<lambda>b. rows (data b)) bufs))"
  by (induction bufs arbitrary: m r) auto

lemma reschedule_no_rows:
  "sum_list (map (\<lambda>b. rows (data b)) (buffers s)) = 0 \<Longrightarrow> reschedule s now = s"
  by (simp add: reschedule_def scan_buffers_eq)

lemma totalRows_returns:
  assumes "totalRows s = Some y"
  shows "tryGetTable s \<noteq> Myself"
  by (rule totalRows.raw_induct[where P = "\<lambda>s y. tryGetTable s \<noteq> Myself", OF _ assms])
     (auto split: if_splits Option.bind_splits)

lemma totalRows_myself:
  "tryGetTable s = Myself \<Longrightarrow> totalRows s = None"
  using totalRows_returns[of s] by (cases "totalRows s") auto

lemma totalRows_not_myself:
  "tryGetTable s \<noteq> Myself \<Longrightarrow>
   totalRows s =
     Some (case (case tryGetTable s of Table t \<Rightarrow> reported_rows t | _ \<Rightarrow> None) of
             None \<Rightarrow> None
           | Some n \<Rightarrow> Some (sum_list (map (\<lambda>buffer. rows (data buffer)) (buffers s)) + n))"
  by (subst totalRows.simps) (simp split: option.splits)

subsection \<open>Destinations that receive\<close>

lemma writeBlockToDestination_delivers:
  assumes "destination_id s \<noteq> None" "\<not> write_throws t"
    and "fst (intersect_columns (castColumn s) (destination_structure s t) block) \<noteq> []"
  shows "fst (writeBlockToDestination block (Table t) s) = None"
    and "catalog (snd (writeBlockToDestination block (Table t) s))
         = Table (t\<lparr>written := written t
              @ [fst (intersect_columns (castColumn s) (destination_structure s t) block)]\<rparr>)"
proof -
  obtain btw warns where i: "intersect_columns (castColumn s) (destination_structure s t) block = (btw, warns)"
    by (cases "intersect_columns (castColumn s) (destination_structure s t) block")
  have b: "block \<noteq> []"
  proof
    assume "block = []"
    then have "intersect_columns (castColumn s) (destination_structure s t) block = ([], [])"
      by (intro intersect_columns_disjoint) simp
    with assms(3) show False by simp
  qed
  from assms i b show "fst (writeBlockToDestination block (Table t) s) = None"
    by (auto simp: writeBlockToDestination_def destination_structure_def Let_def columns_def)
  from assms i b show "catalog (snd (writeBlockToDestination block (Table t) s))
         = Table (t\<lparr>written := written t
              @ [fst (intersect_columns (castColumn s) (destination_structure s t) block)]\<rparr>)"
    by (auto simp: writeBlockToDestination_def destination_structure_def Let_def columns_def)
qed

lemma writeBlockToDestination_catalog_cong:
  assumes "destination_id s' = destination_id s" "allow_materialized s' = allow_materialized s"
    "castColumn s' = castColumn s" "storage_columns s' = storage_columns s" "catalog s' = catalog s"
  shows "catalog (snd (writeBlockToDestination block tbl s'))
         = catalog (snd (writeBlockToDestination block tbl s))"
  using assms
  by (cases tbl)
     (simp_all add: writeBlockToDestination_def Let_def split: prod.split)

lemma write_block_oversize_eq:
  assumes "rows block > thr_rows (max_thresholds s) \<or> bytes block > thr_bytes (max_thresholds s)"
  shows "write_block s env block =
     (if block = [] then (None, s)
      else if \<not> check (storage_columns s) block then (Some CHECK_FAILED, s)
      else if rows block = 0 then (None, s)
      else if destination_id s \<noteq> None \<and> tryGetTable s = Myself then (Some INFINITE_LOOP, s)
      else if destination_id s \<noteq> None
      then writeBlockToDestination block (tryGetTable s)
             (s\<lparr>logged := logged s @ [Trace_WritingDirectly (rows block) (bytes block)]\<rparr>)
      else (None, s))"
  using assms by (simp add: write_block_def Let_def)

subsection \<open>Appends that return\<close>

lemma append_columns_no_throw:
  "length from = length to \<Longrightarrow> append_columns flt rws k from to = (None, to') \<Longrightarrow>
   to' = map (\<lambda>(t, f). t\<lparr>col_data := col_data t @ take rws (col_data f)\<rparr>) (zip to from)"
proof (induction "from" "to" arbitrary: k "to'" rule: list_induct2)
  case Nil
  then show ?case by simp
next
  case (Cons f fs t ts)
  obtain threw rest where r: "append_columns flt rws (k + 1) fs ts = (threw, rest)"
    by (cases "append_columns flt rws (k + 1) fs ts")
  from Cons.prems r have "threw = None \<and> to' = t\<lparr>col_data := col_data t @ take rws (col_data f)\<rparr> # rest"
    by (auto split: if_splits)
  with Cons.IH[of "k + 1" rest] r show ?case by simp
qed

lemma append_columns_None:
  "length from = length to \<Longrightarrow>
   append_columns None rws k from to
     = (None, map (\<lambda>(t, f). t\<lparr>col_data := col_data t @ take rws (col_data f)\<rparr>) (zip to from))"
  by (induction "from" "to" arbitrary: k rule: list_induct2) simp_all

lemma equal_structure_length:
  "blocksHaveEqualStructure from to \<Longrightarrow> length from = length to"
  by (simp add: blocksHaveEqualStructure_def getHeader_def) (metis length_map)

lemma append_columns_slot:
  "append_columns flt rws c from to = (Some k, to') \<Longrightarrow> c \<le> k \<and> k < c + length to'"
proof (induction flt rws c "from" "to" arbitrary: "to'" rule: append_columns.induct)
  case (1 flt rws column_no f fs t ts)
  show ?case
  proof (cases "flt = Some column_no")
    case True
    with "1.prems" show ?thesis by auto
  next
    case False
    obtain threw rest where r: "append_columns flt rws (column_no + 1) fs ts = (threw, rest)"
      by (cases "append_columns flt rws (column_no + 1) fs ts")
    with "1.prems" False have "threw = Some k" "to' = t\<lparr>col_data := col_data t @ take rws (col_data f)\<rparr> # rest"
      by simp_all
    with "1.IH"[OF False, of rest] r show ?thesis by simp
  qed
qed simp_all

lemma rollback_ends_process:
  "c \<le> k \<Longrightarrow> k < c + length cs \<Longrightarrow>
   fst (rollback ct old_rows k c cs) = SEGMENTATION_FAULT \<or> fst (rollback ct old_rows k c cs) = TERMINATED"
proof (induction cs arbitrary: c)
  case Nil
  then show ?case by simp
next
  case (Cons a cs)
  show ?case
  proof (cases "c = k")
    case True
    then show ?thesis by simp
  next
    case False
    with Cons.prems have "c + 1 \<le> k" "k < (c + 1) + length cs" by simp_all
    from Cons.IH[OF this]
    have d: "fst (rollback ct old_rows k (c + 1) cs) = SEGMENTATION_FAULT
        \<or> fst (rollback ct old_rows k (c + 1) cs) = TERMINATED" .
    obtain e cs' where r: "rollback ct old_rows k (c + 1) cs = (e, cs')"
      by (cases "rollback ct old_rows k (c + 1) cs")
    with d have "e = SEGMENTATION_FAULT \<or> e = TERMINATED" by simp
    with r False show ?thesis by (cases ct) auto
  qed
qed

lemma appendBlock_never_rethrows:
  "fst (appendBlock flt from to s) \<noteq> Some INSERT_RANGE_FAILED"
proof -
  obtain threw to' where r: "append_columns (insert_throws flt) (rows from) 0 from to = (threw, to')"
    by (cases "append_columns (insert_throws flt) (rows from) 0 from to")
  show ?thesis
  proof (cases threw)
    case None
    with r show ?thesis by (simp add: appendBlock_def Let_def)
  next
    case (Some k)
    with r have "0 \<le> k \<and> k < 0 + length to'" by (intro append_columns_slot) simp
    then have d: "fst (rollback (cut_throws flt) (rows to) k 0 to') = SEGMENTATION_FAULT
        \<or> fst (rollback (cut_throws flt) (rows to) k 0 to') = TERMINATED"
      by (intro rollback_ends_process) simp_all
    obtain e to'' where rb: "rollback (cut_throws flt) (rows to) k 0 to' = (e, to'')"
      by (cases "rollback (cut_throws flt) (rows to) k 0 to'")
    with d have "e \<noteq> INSERT_RANGE_FAILED" by auto
    with r Some rb show ?thesis by (simp add: appendBlock_def Let_def)
  qed
qed

lemma appendBlock_ok:
  assumes "fst (appendBlock flt from to s) = None"
  shows "to \<noteq> []" "blocksHaveEqualStructure from to" "checkNumberOfRows from" "checkNumberOfRows to"
    and "appendBlock flt from to s =
           (None, appended from to,
            s\<lparr>StorageBufferRows := StorageBufferRows s + int (rows from),
              StorageBufferBytes := StorageBufferBytes s + int (bytes from)\<rparr>)"
proof -
  show c1: "to \<noteq> []" using assms by (auto simp: appendBlock_def)
  show c2: "blocksHaveEqualStructure from to" using assms c1 by (auto simp: appendBlock_def split: if_splits)
  show c3: "checkNumberOfRows from" and c4: "checkNumberOfRows to"
    using assms c1 c2 by (auto simp: appendBlock_def split: if_splits)
  obtain threw to' where r: "append_columns (insert_throws flt) (rows from) 0 from to = (threw, to')"
    by (cases "append_columns (insert_throws flt) (rows from) 0 from to")
  have nt: "threw = None"
    using assms c1 c2 c3 c4 r
    by (cases threw) (auto simp: appendBlock_def Let_def split: prod.splits)
  have "to' = appended from to"
    using append_columns_no_throw[OF equal_structure_length[OF c2], of "insert_throws flt" "rows from" 0 to'] r nt
    by (simp add: appended_def)
  then show "appendBlock flt from to s =
           (None, appended from to,
            s\<lparr>StorageBufferRows := StorageBufferRows s + int (rows from),
              StorageBufferBytes := StorageBufferBytes s + int (bytes from)\<rparr>)"
    using c1 c2 c3 c4 r nt by (simp add: appendBlock_def Let_def)
qed

lemma appended_onto_empty:
  assumes "getHeader to = getHeader from" "checkNumberOfRows from" "list_all (\<lambda>c. col_data c = []) to"
  shows "appended from to = from"
proof -
  have len: "length to = length from"
    using assms(1) by (simp add: getHeader_def) (metis length_map)
  have "\<And>i. i < length from \<Longrightarrow> appended from to ! i = from ! i"
  proof -
    fix i assume i: "i < length from"
    have h: "(col_name (to ! i), col_type (to ! i)) = (col_name (from ! i), col_type (from ! i))"
      using assms(1) i len
      by (metis (mono_tags, lifting) getHeader_def nth_map)
    have e: "col_data (to ! i) = []"
      using assms(3) i len by (simp add: list_all_length)
    have l: "length (col_data (from ! i)) = rows from"
      using assms(2) i by (simp add: checkNumberOfRows_def list_all_length)
    show "appended from to ! i = from ! i"
      using i len h e l by (simp add: appended_def)
  qed
  then show ?thesis
    using len by (intro nth_equalityI) (simp_all add: appended_def)
qed

lemma cloneEmpty_facts:
  "getHeader (cloneEmpty b) = getHeader b"
  "list_all (\<lambda>c. col_data c = []) (cloneEmpty b)"
  "rows (cloneEmpty b) = 0"
  "bytes (cloneEmpty b) = 0"
  "(cloneEmpty b = []) = (b = [])"
  by (induction b) (simp_all add: cloneEmpty_def getHeader_def rows_def bytes_def col_bytes_def)

lemma checkThresholds_eq:
  "checkThresholds s buffer now ar ab =
     checkThresholdsImpl s (rows (data buffer) + ar) (bytes (data buffer) + ab) (age buffer now)"
  by (simp add: checkThresholds_def age_def Let_def)

lemma flushBuffer_ok:
  assumes p: "proceeds s buffer c now" and ok: "fst (flushBuffer s buffer c l now) = None"
  shows "snd (snd (flushBuffer s buffer c l now)) = emptied buffer"
    and "catalog (fst (snd (flushBuffer s buffer c l now)))
         = catalog (snd (writeBlockToDestination (data buffer) (tryGetTable s) s))"
    and "StorageBufferFlush (fst (snd (flushBuffer s buffer c l now))) = StorageBufferFlush s + 1"
    and "StorageBufferRows (fst (snd (flushBuffer s buffer c l now)))
         = StorageBufferRows s - int (rows (data buffer))"
    and "StorageBufferBytes (fst (snd (flushBuffer s buffer c l now)))
         = StorageBufferBytes s - int (bytes (data buffer))"
    and "StorageBufferErrorOnFlush (fst (snd (flushBuffer s buffer c l now)))
         = StorageBufferErrorOnFlush s"
proof -
  let ?s2 = "swapped_out s buffer c now"
  let ?w = "writeBlockToDestination (data buffer) (tryGetTable s) ?s2"
  have cc: "catalog (snd ?w) = catalog (snd (writeBlockToDestination (data buffer) (tryGetTable s) s))"
    by (rule writeBlockToDestination_catalog_cong) (simp_all add: swapped_out_frame)
  have fl: "flushBuffer s buffer c l now = (None, snd ?w, emptied buffer)"
  proof (cases "destination_id s")
    case None
    then have "?w = (None, ?s2)"
      by (simp add: writeBlockToDestination_no_destination swapped_out_frame)
    with None show ?thesis
      using flushBuffer_gate_open[OF p, of l] by (simp add: Let_def)
  next
    case (Some y)
    obtain r s3 where w: "?w = (r, s3)" by (cases ?w)
    have "r = None"
      using ok flushBuffer_gate_open[OF p, of l] Some w
      by (cases r) (simp_all add: Let_def)
    with Some w show ?thesis
      using flushBuffer_gate_open[OF p, of l] by (simp add: Let_def)
  qed
  show "snd (snd (flushBuffer s buffer c l now)) = emptied buffer"
    by (simp add: fl)
  show "catalog (fst (snd (flushBuffer s buffer c l now)))
         = catalog (snd (writeBlockToDestination (data buffer) (tryGetTable s) s))"
    by (simp add: fl cc)
  show "StorageBufferFlush (fst (snd (flushBuffer s buffer c l now))) = StorageBufferFlush s + 1"
    "StorageBufferRows (fst (snd (flushBuffer s buffer c l now)))
         = StorageBufferRows s - int (rows (data buffer))"
    "StorageBufferBytes (fst (snd (flushBuffer s buffer c l now)))
         = StorageBufferBytes s - int (bytes (data buffer))"
    "StorageBufferErrorOnFlush (fst (snd (flushBuffer s buffer c l now)))
         = StorageBufferErrorOnFlush s"
    by (simp_all add: fl writeBlockToDestination_frame swapped_out_frame)
qed

lemma flushBuffer_failed:
  assumes p: "proceeds s buffer c now" and ko: "fst (flushBuffer s buffer c l now) \<noteq> None"
  shows "snd (snd (flushBuffer s buffer c l now)) = buffer\<lparr>first_write_time := now\<rparr>"
proof (cases "destination_id s")
  case None
  with ko show ?thesis
    using flushBuffer_gate_open[OF p, of l] by (simp add: Let_def)
next
  case (Some y)
  let ?w = "writeBlockToDestination (data buffer) (tryGetTable s) (swapped_out s buffer c now)"
  obtain r s3 where w: "?w = (r, s3)" by (cases ?w)
  have "r \<noteq> None"
    using ko flushBuffer_gate_open[OF p, of l] Some w
    by (cases r) (simp_all add: Let_def)
  then obtain e where "r = Some e" by (cases r) simp_all
  with Some w show ?thesis
    using flushBuffer_gate_open[OF p, of l] by (simp add: Let_def)
qed

lemma insertIntoBuffer_flush_branch:
  assumes "data buffer \<noteq> []"
    and "checkThresholds s buffer now (rows (sortColumns block)) (bytes (sortColumns block)) = (True, s1)"
    and "flushBuffer s1 buffer False True flush_now = (r1, sF, bF)"
  shows "insertIntoBuffer s block buffer now flush_now flt =
     (case r1 of
        Some e \<Rightarrow> (Some e, sF, bF)
      | None \<Rightarrow>
          (let buffer2 = (if first_write_time bF = 0 then bF\<lparr>first_write_time := now\<rparr> else bF);
               (r, to', s2) = appendBlock flt (sortColumns block) (data buffer2) sF
           in (r, s2, buffer2\<lparr>data := to'\<rparr>)))"
  using assms by (simp add: insertIntoBuffer_def Let_def)

subsection \<open>Rows of a block\<close>

lemma row_at_getByName:
  "row_at b i n = map_option (\<lambda>c. col_data c ! i) (getByName b n)"
  by (induction b) (auto simp: row_at_def getByName_def)

lemma rows_of_cong:
  assumes "rows b' = rows b" "\<And>n. getByName b' n = getByName b n"
  shows "rows_of b' = rows_of b"
proof -
  have "row_at b' = row_at b"
    by (intro ext) (simp add: row_at_getByName assms(2))
  then show ?thesis by (simp add: rows_of_def assms(1))
qed

lemma rows_of_no_rows: "rows b = 0 \<Longrightarrow> rows_of b = {#}"
  by (simp add: rows_of_def)

lemma getByName_Some_iff:
  assumes "distinct (map col_name b)"
  shows "(getByName b n = Some c) = (c \<in> set b \<and> col_name c = n)"
  using assms
proof (induction b)
  case Nil
  then show ?case by (simp add: getByName_def)
next
  case (Cons a b)
  then show ?case by (auto simp: getByName_def)
qed

lemma getByName_SomeD:
  "getByName b n = Some c \<Longrightarrow> c \<in> set b \<and> col_name c = n"
  by (auto simp: getByName_def find_Some_iff)

lemma checkNumberOfRows_length:
  "checkNumberOfRows b \<Longrightarrow> c \<in> set b \<Longrightarrow> length (col_data c) = rows b"
  by (simp add: checkNumberOfRows_def list_all_iff)

lemma rows_subblock:
  assumes "checkNumberOfRows b" "set b' \<subseteq> set b" "b' \<noteq> []"
  shows "rows b' = rows b" "checkNumberOfRows b'"
proof -
  from assms(3) obtain c cs where b': "b' = c # cs" by (cases b') auto
  with assms(2) have "c \<in> set b" by auto
  with assms(1) b' show r: "rows b' = rows b"
    by (simp add: rows_def checkNumberOfRows_length)
  show "checkNumberOfRows b'"
    using assms(1,2) r by (auto simp: checkNumberOfRows_def list_all_iff)
qed

lemma sortColumns_facts:
  "set (sortColumns b) = set b"
  "mset (sortColumns b) = mset b"
  "(sortColumns b = []) = (b = [])"
  "distinct (map col_name (sortColumns b)) = distinct (map col_name b)"
  "set (getHeader (sortColumns b)) = set (getHeader b)"
proof -
  show "set (sortColumns b) = set b" "mset (sortColumns b) = mset b"
    by (simp_all add: sortColumns_def)
  then show "(sortColumns b = []) = (b = [])"
    by (metis mset_zero_iff)
  have "mset (map col_name (sortColumns b)) = mset (map col_name b)"
    by (simp add: sortColumns_def)
  then show "distinct (map col_name (sortColumns b)) = distinct (map col_name b)"
    by (rule mset_eq_imp_distinct_iff)
  show "set (getHeader (sortColumns b)) = set (getHeader b)"
    by (simp add: getHeader_def sortColumns_def)
qed

lemma sortColumns_rows:
  assumes "checkNumberOfRows b"
  shows "rows (sortColumns b) = rows b" "checkNumberOfRows (sortColumns b)"
proof -
  show "rows (sortColumns b) = rows b"
  proof (cases "b = []")
    case True
    then show ?thesis by (simp add: sortColumns_def)
  next
    case False
    then show ?thesis
      using rows_subblock(1)[OF assms, of "sortColumns b"]
      by (simp add: sortColumns_facts(1,3))
  qed
  then show "checkNumberOfRows (sortColumns b)"
    using assms by (simp add: checkNumberOfRows_def list_all_iff sortColumns_facts(1))
qed

lemma option_eq_by_Some:
  assumes "\<And>c. (x = Some c) = (y = Some c)"
  shows "x = y"
proof (cases x)
  case None
  have "y = None"
  proof (cases y)
    case (Some c)
    with assms[of c] None show ?thesis by simp
  qed simp
  with None show ?thesis by simp
next
  case (Some c)
  with assms[of c] show ?thesis by simp
qed

lemma sortColumns_getByName:
  assumes "distinct (map col_name b)"
  shows "getByName (sortColumns b) n = getByName b n"
proof -
  have d: "distinct (map col_name (sortColumns b))"
    using assms by (simp add: sortColumns_facts)
  have "\<And>c. (getByName (sortColumns b) n = Some c) = (getByName b n = Some c)"
    unfolding getByName_Some_iff[OF d] getByName_Some_iff[OF assms] sortColumns_facts(1) ..
  then show ?thesis
    by (rule option_eq_by_Some)
qed

lemma rows_of_sortColumns:
  assumes "distinct (map col_name b)" "checkNumberOfRows b"
  shows "rows_of (sortColumns b) = rows_of b"
  using sortColumns_rows(1)[OF assms(2)] sortColumns_getByName[OF assms(1)]
  by (rule rows_of_cong)

lemma upt_split: "[0..<n + m] = [0..<n] @ map (\<lambda>j. n + j) [0..<m]"
  by (induction m) simp_all

lemma appended_facts:
  assumes h: "getHeader from = getHeader to" and cf: "checkNumberOfRows from"
    and ct: "checkNumberOfRows to" and ne: "to \<noteq> []"
  shows "getHeader (appended from to) = getHeader to"
    and "rows (appended from to) = rows to + rows from"
    and "checkNumberOfRows (appended from to)"
    and "appended from to \<noteq> []"
proof -
  have len: "length from = length to"
    using h by (simp add: getHeader_def) (metis length_map)
  have lf: "\<And>i. i < length to \<Longrightarrow> length (col_data (from ! i)) = rows from"
    using cf len by (simp add: checkNumberOfRows_def list_all_length)
  have lt: "\<And>i. i < length to \<Longrightarrow> length (col_data (to ! i)) = rows to"
    using ct by (simp add: checkNumberOfRows_def list_all_length)
  have nth: "\<And>i. i < length to \<Longrightarrow>
      appended from to ! i = (to ! i)\<lparr>col_data := col_data (to ! i) @ col_data (from ! i)\<rparr>"
    using len lf by (simp add: appended_def)
  have la: "length (appended from to) = length to"
    using len by (simp add: appended_def)
  show "getHeader (appended from to) = getHeader to"
    by (rule nth_equalityI) (simp_all add: getHeader_def la nth)
  show ne': "appended from to \<noteq> []"
    using ne la by (metis length_0_conv)
  have "0 < length to" using ne by simp
  then have "length (col_data (appended from to ! 0)) = rows to + rows from"
    by (simp add: nth lf lt)
  then show r: "rows (appended from to) = rows to + rows from"
    using ne' by (cases "appended from to") (simp_all add: rows_def)
  show "checkNumberOfRows (appended from to)"
    by (simp add: checkNumberOfRows_def list_all_length la nth r lf lt)
qed

lemma appended_row_at:
  assumes h: "getHeader from = getHeader to" and cf: "checkNumberOfRows from"
    and ct: "checkNumberOfRows to"
  shows "i < rows to \<Longrightarrow> row_at (appended from to) i = row_at to i"
    and "row_at (appended from to) (rows to + j) = row_at from j"
proof -
  have len: "length from = length to"
    using h by (simp add: getHeader_def) (metis length_map)
  have lf: "\<And>k. k < length to \<Longrightarrow> length (col_data (from ! k)) = rows from"
    using cf len by (simp add: checkNumberOfRows_def list_all_length)
  have lt: "\<And>k. k < length to \<Longrightarrow> length (col_data (to ! k)) = rows to"
    using ct by (simp add: checkNumberOfRows_def list_all_length)
  have nth: "\<And>k. k < length to \<Longrightarrow>
      appended from to ! k = (to ! k)\<lparr>col_data := col_data (to ! k) @ col_data (from ! k)\<rparr>"
    using len lf by (simp add: appended_def)
  have la: "length (appended from to) = length to"
    using len by (simp add: appended_def)
  have nm: "\<And>k. k < length to \<Longrightarrow> col_name (to ! k) = col_name (from ! k)"
  proof -
    fix k assume k: "k < length to"
    have "getHeader to ! k = getHeader from ! k" using h by simp
    then show "col_name (to ! k) = col_name (from ! k)"
      using k len by (simp add: getHeader_def)
  qed
  show "i < rows to \<Longrightarrow> row_at (appended from to) i = row_at to i"
  proof -
    assume i: "i < rows to"
    have "map (\<lambda>c. (col_name c, col_data c ! i)) (appended from to)
        = map (\<lambda>c. (col_name c, col_data c ! i)) to"
      by (rule nth_equalityI) (simp_all add: la nth nth_append lt i)
    then show ?thesis by (simp add: row_at_def)
  qed
  show "row_at (appended from to) (rows to + j) = row_at from j"
  proof -
    have "map (\<lambda>c. (col_name c, col_data c ! (rows to + j))) (appended from to)
        = map (\<lambda>c. (col_name c, col_data c ! j)) from"
      by (rule nth_equalityI) (simp_all add: la len nth nth_append lt nm)
    then show ?thesis by (simp add: row_at_def)
  qed
qed

lemma rows_of_appended:
  assumes h: "getHeader from = getHeader to" and cf: "checkNumberOfRows from"
    and ct: "checkNumberOfRows to" and ne: "to \<noteq> []"
  shows "rows_of (appended from to) = rows_of to + rows_of from"
proof -
  let ?a = "appended from to"
  have "[0..<rows to + rows from] = [0..<rows to] @ map (\<lambda>j. rows to + j) [0..<rows from]"
    by (rule upt_split)
  then have "map (row_at ?a) [0..<rows ?a]
      = map (row_at ?a) [0..<rows to] @ map (\<lambda>j. row_at ?a (rows to + j)) [0..<rows from]"
    by (simp add: appended_facts(2)[OF assms] comp_def)
  also have "\<dots> = map (row_at to) [0..<rows to] @ map (row_at from) [0..<rows from]"
    by (simp add: appended_row_at[OF h cf ct] cong: map_cong)
  finally show ?thesis by (simp add: rows_of_def)
qed

lemma intersect_columns_agree_both:
  assumes "\<forall>n ty c. (n, ty) \<in> set dst \<longrightarrow> getByName block n = Some c \<longrightarrow> col_type c = ty"
  shows "(\<forall>n. getByName (fst (intersect_columns cast dst block)) n
           = (if n \<in> fst ` set dst then getByName block n else None))
       \<and> set (fst (intersect_columns cast dst block)) \<subseteq> set block"
  using assms
proof (induction dst)
  case Nil
  show ?case by (simp add: getByName_def)
next
  case (Cons a dst)
  obtain m ty where a: "a = (m, ty)" by (cases a)
  obtain cols warns where r: "intersect_columns cast dst block = (cols, warns)"
    by (cases "intersect_columns cast dst block")
  have agree: "\<forall>n ty c. (n, ty) \<in> set dst \<longrightarrow> getByName block n = Some c \<longrightarrow> col_type c = ty"
    using Cons.prems by auto
  have ih1: "\<And>n. getByName cols n = (if n \<in> fst ` set dst then getByName block n else None)"
    and ih2: "set cols \<subseteq> set block"
    using Cons.IH[OF agree] r by simp_all
  show ?case
  proof (cases "getByName block m")
    case None
    then show ?thesis using ih1 ih2 r by (auto simp: a)
  next
    case (Some c)
    have ty: "col_type c = ty" using Cons.prems Some by (simp add: a)
    have nm: "col_name c = m" and cb: "c \<in> set block" using getByName_SomeD[OF Some] by simp_all
    have g: "\<And>n. getByName (c # cols) n = (if m = n then Some c else getByName cols n)"
      using nm by (simp add: getByName_def)
    have i: "fst (intersect_columns cast (a # dst) block) = c # cols"
      using r Some ty by (simp add: a)
    show ?thesis
      unfolding i using g ih1 ih2 cb Some by (auto simp: a)
  qed
qed

lemma intersect_columns_agree:
  assumes "\<And>n ty c. (n, ty) \<in> set dst \<Longrightarrow> getByName block n = Some c \<Longrightarrow> col_type c = ty"
  shows "getByName (fst (intersect_columns cast dst block)) n
           = (if n \<in> fst ` set dst then getByName block n else None)"
    and "set (fst (intersect_columns cast dst block)) \<subseteq> set block"
  using intersect_columns_agree_both[of dst block cast] assms by blast+

lemma types_agree:
  assumes "distinct (map fst dst)" "set (getHeader block) \<subseteq> set dst"
    and "(n, ty) \<in> set dst" "getByName block n = Some c"
  shows "col_type c = ty"
proof -
  have "c \<in> set block" "col_name c = n" using getByName_SomeD[OF assms(4)] by simp_all
  then have "(n, col_type c) \<in> set (getHeader block)"
    by (auto simp: getHeader_def)
  with assms(2) have "(n, col_type c) \<in> set dst" by auto
  with assms(1,3) show ?thesis by (meson eq_key_imp_eq_value)
qed

lemma intersect_columns_rows_of:
  assumes d: "distinct (map fst dst)" and h: "set (getHeader block) \<subseteq> set dst"
    and c: "checkNumberOfRows block" and ne: "block \<noteq> []"
  shows "fst (intersect_columns cast dst block) \<noteq> []"
    and "rows_of (fst (intersect_columns cast dst block)) = rows_of block"
proof -
  let ?btw = "fst (intersect_columns cast dst block)"
  have ta: "\<And>n ty c. (n, ty) \<in> set dst \<Longrightarrow> getByName block n = Some c \<Longrightarrow> col_type c = ty"
    using types_agree[OF d h] by blast
  note ag = intersect_columns_agree[of dst block cast, OF ta]
  have g: "\<And>n. getByName ?btw n = getByName block n"
  proof -
    fix n
    show "getByName ?btw n = getByName block n"
    proof (cases "n \<in> fst ` set dst")
      case True
      then show ?thesis using ag(1)[where n = n] by simp
    next
      case False
      have "getByName block n = None"
      proof (cases "getByName block n")
        case (Some c)
        then have "c \<in> set block" "col_name c = n" using getByName_SomeD by simp_all
        then have "(n, col_type c) \<in> set (getHeader block)" by (auto simp: getHeader_def)
        with h have "n \<in> fst ` set dst" by force
        with False show ?thesis by simp
      qed simp
      then show ?thesis using ag(1)[where n = n] False by simp
    qed
  qed
  from ne obtain c0 cs where b: "block = c0 # cs" by (cases block) auto
  have "getByName block (col_name c0) = Some c0" by (simp add: b getByName_def)
  then have "getByName ?btw (col_name c0) = Some c0" using g by simp
  then show n: "?btw \<noteq> []" by (auto simp: getByName_def)
  have "rows ?btw = rows block"
    using rows_subblock(1)[OF c ag(2) n] .
  then show "rows_of ?btw = rows_of block"
    using g by (rule rows_of_cong)
qed

subsection \<open>Conservation of rows\<close>

lemma same_setup_refl: "same_setup s s"
  by (simp add: same_setup_def)

lemma same_setup_trans: "same_setup s s' \<Longrightarrow> same_setup s' s'' \<Longrightarrow> same_setup s s''"
  by (simp add: same_setup_def)

lemma same_setup_columns: "same_setup s s' \<Longrightarrow> storage_columns s' = storage_columns s"
  by (simp add: same_setup_def)

lemma catalog_static_Table:
  assumes "catalog_static l' = catalog_static l" "l = Table t"
  shows "\<exists>t'. l' = Table t' \<and> write_throws t' = write_throws t
            \<and> sample_block t' = sample_block t
            \<and> sample_block_non_materialized t' = sample_block_non_materialized t"
proof (cases l')
  case (Table t')
  with assms have "t'\<lparr>written := []\<rparr> = t\<lparr>written := []\<rparr>"
    by (simp add: catalog_static_def)
  then have "write_throws (t'\<lparr>written := []\<rparr>) = write_throws (t\<lparr>written := []\<rparr>)"
    "sample_block (t'\<lparr>written := []\<rparr>) = sample_block (t\<lparr>written := []\<rparr>)"
    "sample_block_non_materialized (t'\<lparr>written := []\<rparr>) = sample_block_non_materialized (t\<lparr>written := []\<rparr>)"
    by simp_all
  with Table show ?thesis by simp
qed (use assms in \<open>simp_all add: catalog_static_def\<close>)

lemma destination_serves_cong:
  assumes "same_setup s s'" "destination_serves s"
  shows "destination_serves s'"
proof -
  from assms(2) obtain t where t: "catalog s = Table t"
    by (cases "catalog s") (simp_all add: destination_serves_def)
  from assms(1) have "catalog_static (catalog s') = catalog_static (catalog s)"
    by (simp add: same_setup_def)
  from catalog_static_Table[OF this t] obtain t' where t': "catalog s' = Table t'"
    "write_throws t' = write_throws t" "sample_block t' = sample_block t"
    "sample_block_non_materialized t' = sample_block_non_materialized t"
    by blast
  have ds: "destination_structure s' t' = destination_structure s t"
    using assms(1) t' by (simp add: destination_structure_def same_setup_def)
  show ?thesis
    using assms t t' ds by (simp add: destination_serves_def same_setup_def)
qed

lemma destination_serves_Table:
  assumes "destination_serves s"
  obtains t where "catalog s = Table t" "tryGetTable s = Table t" "\<not> write_throws t"
    "set (storage_columns s) \<subseteq> set (destination_structure s t)"
    "distinct (map fst (destination_structure s t))" "destination_id s \<noteq> None"
proof -
  from assms obtain t where t: "catalog s = Table t"
    by (cases "catalog s") (simp_all add: destination_serves_def)
  moreover from assms obtain d where "destination_id s = Some d"
    by (auto simp: destination_serves_def)
  ultimately show ?thesis
    using assms that[of t] by (simp add: destination_serves_def tryGetTable_def)
qed

lemma writeBlockToDestination_serves:
  assumes sv: "destination_serves s"
    and h: "set (getHeader block) \<subseteq> set (storage_columns s)"
    and c: "checkNumberOfRows block"
  shows "fst (writeBlockToDestination block (tryGetTable s) s) = None"
    and "same_setup s (snd (writeBlockToDestination block (tryGetTable s) s))"
    and "delivered (snd (writeBlockToDestination block (tryGetTable s) s)) = delivered s + rows_of block"
proof -
  let ?w = "writeBlockToDestination block (tryGetTable s) s"
  from sv obtain t where t: "catalog s = Table t" "tryGetTable s = Table t" "\<not> write_throws t"
    "set (storage_columns s) \<subseteq> set (destination_structure s t)"
    "distinct (map fst (destination_structure s t))" "destination_id s \<noteq> None"
    by (rule destination_serves_Table)
  have res: "fst ?w = None \<and> same_setup s (snd ?w) \<and> delivered (snd ?w) = delivered s + rows_of block"
  proof (cases "block = []")
    case True
    then have "?w = (None, s)" by (simp add: writeBlockToDestination_no_destination)
    with True show ?thesis by (simp add: same_setup_refl rows_of_def rows_def)
  next
    case False
    let ?btw = "fst (intersect_columns (castColumn s) (destination_structure s t) block)"
    have h': "set (getHeader block) \<subseteq> set (destination_structure s t)" using h t(4) by blast
    note i = intersect_columns_rows_of[OF t(5) h' c False, of "castColumn s"]
    note d = writeBlockToDestination_delivers[OF t(6) t(3) i(1)]
    have cat: "catalog (snd ?w) = Table (t\<lparr>written := written t @ [?btw]\<rparr>)"
      using d(2) t(2) by simp
    have "same_setup s (snd ?w)"
      by (simp add: same_setup_def writeBlockToDestination_frame cat t(1) catalog_static_def)
    moreover have "delivered (snd ?w) = delivered s + rows_of block"
      by (simp add: delivered_def cat t(1) i(2))
    ultimately show ?thesis using d(1) t(2) by simp
  qed
  then show "fst ?w = None" "same_setup s (snd ?w)" "delivered (snd ?w) = delivered s + rows_of block"
    by simp_all
qed

lemma same_setup_after_gate: "same_setup s (after_gate s buffer c now)"
  by (simp add: same_setup_def after_gate_frame)

lemma same_setup_swapped_out: "same_setup s (swapped_out s buffer c now)"
  by (simp add: same_setup_def swapped_out_frame)

lemma delivered_cong: "catalog s' = catalog s \<Longrightarrow> delivered s' = delivered s"
  by (simp add: delivered_def)

lemma checkNumberOfRows_cloneEmpty: "checkNumberOfRows (cloneEmpty b)"
  unfolding checkNumberOfRows_def cloneEmpty_facts(3)
  by (simp add: cloneEmpty_def list_all_iff)

lemma shard_ok_emptied:
  assumes "shard_ok hdr b"
  shows "shard_ok hdr (emptied b)"
proof (cases "data b = []")
  case True
  then show ?thesis by (simp add: shard_ok_def emptied_def cloneEmpty_def)
next
  case False
  with assms have "getHeader (data b) = sort_key fst hdr" by (simp add: shard_ok_def)
  then show ?thesis
    by (simp add: shard_ok_def emptied_def cloneEmpty_facts(1) checkNumberOfRows_cloneEmpty)
qed

lemma rows_of_emptied: "rows_of (data (emptied b)) = {#}" "rows (data (emptied b)) = 0"
  by (simp_all add: emptied_def rows_of_no_rows cloneEmpty_facts(3))

lemma shard_ok_header:
  assumes "shard_ok hdr b"
  shows "set (getHeader (data b)) \<subseteq> set hdr" "checkNumberOfRows (data b)"
proof -
  show "set (getHeader (data b)) \<subseteq> set hdr"
  proof (cases "data b = []")
    case True
    then show ?thesis by (simp add: getHeader_def)
  next
    case False
    with assms have "getHeader (data b) = sort_key fst hdr" by (simp add: shard_ok_def)
    then show ?thesis by simp
  qed
  show "checkNumberOfRows (data b)"
    using assms by (auto simp: shard_ok_def checkNumberOfRows_def)
qed

lemma flushBuffer_serves:
  assumes sv: "destination_serves s" and ok: "shard_ok (storage_columns s) b"
  shows "fst (flushBuffer s b c l now) = None"
    and "same_setup s (fst (snd (flushBuffer s b c l now)))"
    and "shard_ok (storage_columns s) (snd (snd (flushBuffer s b c l now)))"
    and "delivered (fst (snd (flushBuffer s b c l now))) + rows_of (data (snd (snd (flushBuffer s b c l now))))
         = delivered s + rows_of (data b)"
    and "\<not> c \<Longrightarrow> rows (data (snd (snd (flushBuffer s b c l now)))) = 0"
    and "(data (snd (snd (flushBuffer s b c l now))) = []) = (data b = [])"
proof -
  let ?f = "flushBuffer s b c l now"
  have all: "fst ?f = None \<and> same_setup s (fst (snd ?f)) \<and> shard_ok (storage_columns s) (snd (snd ?f))
      \<and> delivered (fst (snd ?f)) + rows_of (data (snd (snd ?f))) = delivered s + rows_of (data b)
      \<and> (\<not> c \<longrightarrow> rows (data (snd (snd ?f))) = 0)
      \<and> (data (snd (snd ?f)) = []) = (data b = [])"
  proof (cases "proceeds s b c now")
    case False
    then have f: "?f = (None, s, b)" by (rule flushBuffer_gate_closed)
    have "\<not> c \<longrightarrow> rows (data b) = 0" using False by (cases c) (simp_all add: proceeds_def)
    then show ?thesis unfolding f using ok by (simp add: same_setup_refl)
  next
    case True
    let ?s2 = "swapped_out s b c now"
    let ?w = "writeBlockToDestination (data b) (tryGetTable ?s2) ?s2"
    have sv2: "destination_serves ?s2"
      using same_setup_swapped_out sv by (rule destination_serves_cong)
    have t2: "tryGetTable ?s2 = tryGetTable s"
      by (rule tryGetTable_cong) (simp_all add: swapped_out_frame)
    have h: "set (getHeader (data b)) \<subseteq> set (storage_columns ?s2)"
      using shard_ok_header(1)[OF ok] by (simp add: swapped_out_frame)
    note w = writeBlockToDestination_serves[OF sv2 h shard_ok_header(2)[OF ok]]
    obtain s3 where w3: "?w = (None, s3)" using w(1) by (cases ?w) simp
    from sv obtain d where d: "destination_id s = Some d" by (auto simp: destination_serves_def)
    have f: "?f = (None, s3, emptied b)"
      using flushBuffer_gate_open[OF True, of l] d w3 t2 by (simp add: Let_def)
    have "same_setup s s3"
      using same_setup_trans[OF same_setup_swapped_out w(2)] w3 by simp
    moreover have "delivered s3 = delivered s + rows_of (data b)"
      using w(3) w3 delivered_cong[of ?s2 s] by (simp add: swapped_out_frame)
    ultimately show ?thesis
      unfolding f using ok
      by (simp add: shard_ok_emptied rows_of_emptied) (simp add: emptied_def cloneEmpty_facts(5))
  qed
  then show "fst ?f = None" "same_setup s (fst (snd ?f))" "shard_ok (storage_columns s) (snd (snd ?f))"
    "delivered (fst (snd ?f)) + rows_of (data (snd (snd ?f))) = delivered s + rows_of (data b)"
    "\<not> c \<Longrightarrow> rows (data (snd (snd ?f))) = 0"
    "(data (snd (snd ?f)) = []) = (data b = [])"
    by simp_all
qed

lemma appendBlock_no_fault:
  assumes "insert_throws flt = None" "to \<noteq> []" "getHeader from = getHeader to"
    "checkNumberOfRows from" "checkNumberOfRows to"
  shows "appendBlock flt from to s =
           (None, appended from to,
            s\<lparr>StorageBufferRows := StorageBufferRows s + int (rows from),
              StorageBufferBytes := StorageBufferBytes s + int (bytes from)\<rparr>)"
proof -
  have len: "length from = length to"
    using assms(3) by (simp add: getHeader_def) (metis length_map)
  show ?thesis
    using assms append_columns_None[OF len, of "rows from" 0]
    by (simp add: appendBlock_def blocksHaveEqualStructure_def Let_def appended_def)
qed

lemma filter_singleton:
  "distinct xs \<Longrightarrow> k \<in> set xs \<Longrightarrow> (\<And>x. x \<in> set xs \<Longrightarrow> P x = (x = k)) \<Longrightarrow> filter P xs = [k]"
proof (induction xs)
  case Nil
  then show ?case by simp
next
  case (Cons a xs)
  show ?case
  proof (cases "a = k")
    case True
    then have "k \<notin> set xs" using Cons.prems(1) by simp
    then have "filter P xs = []"
      using Cons.prems(3) by (auto simp: filter_empty_conv)
    with True show ?thesis using Cons.prems(3)[of a] by simp
  next
    case False
    then have "k \<in> set xs" using Cons.prems(2) by simp
    moreover have "distinct xs" using Cons.prems(1) by simp
    ultimately have "filter P xs = [k]" using Cons.IH Cons.prems(3) by simp
    with False show ?thesis using Cons.prems(3)[of a] by simp
  qed
qed

lemma sort_key_unique:
  assumes "distinct (map f xs)" "distinct (map f ys)" "set xs = set ys"
  shows "sort_key f xs = sort_key f ys"
proof -
  have dx: "distinct xs" and dy: "distinct ys" and inj: "inj_on f (set xs)"
    using assms(1,2) by (simp_all add: distinct_map)
  have m: "mset ys = mset xs"
    using dx dy assms(3) by (simp add: set_eq_iff_mset_eq_distinct)
  show ?thesis
  proof (rule properties_for_sort_key)
    show "mset (sort_key f ys) = mset xs" using m by simp
    show "sorted (map f (sort_key f ys))" by simp
    fix k assume k: "k \<in> set (sort_key f ys)"
    then have kx: "k \<in> set xs" using assms(3) by simp
    have p: "\<And>x. x \<in> set xs \<Longrightarrow> (f k = f x) = (x = k)"
      using inj kx by (auto dest: inj_onD)
    have a: "filter (\<lambda>x. f k = f x) (sort_key f ys) = [k]"
      using k p assms(3) dy by (intro filter_singleton) simp_all
    have b: "filter (\<lambda>x. f k = f x) xs = [k]"
      using kx p dx by (intro filter_singleton) simp_all
    show "filter (\<lambda>x. f k = f x) (sort_key f ys) = filter (\<lambda>x. f k = f x) xs"
      using a b by simp
  qed
qed

lemma sort_key_eqI:
  assumes "distinct (map f xs)" "distinct (map f ys)" "set xs = set ys" "sorted (map f ys)"
  shows "sort_key f xs = ys"
proof -
  have "sort_key f xs = sort_key f ys" using assms(1-3) by (rule sort_key_unique)
  also have "\<dots> = ys" using assms(4) by (simp add: sort_key_id_if_sorted)
  finally show ?thesis .
qed

lemma check_sorted:
  assumes "check hdr block" "distinct (map fst hdr)"
  shows "getHeader (sortColumns block) = sort_key fst hdr"
    and "checkNumberOfRows (sortColumns block)"
    and "rows_of (sortColumns block) = rows_of block"
    and "set (getHeader block) \<subseteq> set hdr" and "checkNumberOfRows block"
proof -
  have d: "distinct (map col_name block)" and st: "set (getHeader block) = set hdr"
    and c: "checkNumberOfRows block"
    using assms(1) by (simp_all add: check_def)
  have m: "map fst (getHeader (sortColumns block)) = map col_name (sortColumns block)"
    by (simp add: getHeader_def comp_def)
  have "sort_key fst hdr = getHeader (sortColumns block)"
  proof (rule sort_key_eqI)
    show "distinct (map fst hdr)" by (rule assms(2))
    show "distinct (map fst (getHeader (sortColumns block)))"
      unfolding m using d by (simp add: sortColumns_facts(4))
    show "set hdr = set (getHeader (sortColumns block))"
      using st by (simp add: sortColumns_facts(5))
    show "sorted (map fst (getHeader (sortColumns block)))"
      unfolding m by (simp add: sortColumns_def)
  qed
  then show "getHeader (sortColumns block) = sort_key fst hdr" by simp
  show "checkNumberOfRows (sortColumns block)" using c by (rule sortColumns_rows(2))
  show "rows_of (sortColumns block) = rows_of block" using d c by (rule rows_of_sortColumns)
  show "set (getHeader block) \<subseteq> set hdr" using st by simp
  show "checkNumberOfRows block" by (rule c)
qed

lemma insertIntoBuffer_eq:
  "insertIntoBuffer s block buffer now fnow flt =
     (case before_append s block buffer now fnow of
        (Some e, s1, buffer1) \<Rightarrow> (Some e, s1, buffer1)
      | (None, s1, buffer1) \<Rightarrow>
          (let buffer2 = (if first_write_time buffer1 = 0
                          then buffer1\<lparr>first_write_time := now\<rparr> else buffer1);
               (r, to', s2) = appendBlock flt (sortColumns block) (data buffer2) s1
           in (r, s2, buffer2\<lparr>data := to'\<rparr>)))"
  by (simp add: insertIntoBuffer_def before_append_def Let_def split: prod.split option.split)

lemma same_setup_checkThresholdsImpl: "same_setup s (snd (checkThresholdsImpl s r b a))"
  by (simp add: same_setup_def checkThresholdsImpl_frame)

lemma before_append_serves:
  assumes sv: "destination_serves s" and ok: "shard_ok (storage_columns s) b"
    and ch: "check (storage_columns s) block" and ne: "block \<noteq> []"
  shows "fst (before_append s block b now fnow) = None"
    and "same_setup s (fst (snd (before_append s block b now fnow)))"
    and "data (snd (snd (before_append s block b now fnow))) \<noteq> []"
    and "getHeader (data (snd (snd (before_append s block b now fnow)))) = sort_key fst (storage_columns s)"
    and "checkNumberOfRows (data (snd (snd (before_append s block b now fnow))))"
    and "delivered (fst (snd (before_append s block b now fnow)))
           + rows_of (data (snd (snd (before_append s block b now fnow))))
         = delivered s + rows_of (data b)"
proof -
  let ?p = "before_append s block b now fnow"
  let ?sorted = "sortColumns block"
  let ?cols = "storage_columns s"
  have dc: "distinct (map fst ?cols)" using sv by (simp add: destination_serves_def)
  note cs = check_sorted[OF ch dc]
  have all: "fst ?p = None \<and> same_setup s (fst (snd ?p)) \<and> data (snd (snd ?p)) \<noteq> []
      \<and> getHeader (data (snd (snd ?p))) = sort_key fst ?cols
      \<and> checkNumberOfRows (data (snd (snd ?p)))
      \<and> delivered (fst (snd ?p)) + rows_of (data (snd (snd ?p))) = delivered s + rows_of (data b)"
  proof (cases "data b = []")
    case True
    then have p: "?p = (None, s, b\<lparr>data := cloneEmpty ?sorted\<rparr>)"
      by (simp add: before_append_def)
    have e: "rows_of (cloneEmpty ?sorted) = {#}"
      by (simp add: rows_of_no_rows cloneEmpty_facts(3))
    have e': "rows_of (data b) = {#}"
      using True by (simp add: rows_of_def rows_def)
    show ?thesis
      unfolding p using ne e e'
      by (simp add: same_setup_refl cloneEmpty_facts(1,5) sortColumns_facts(3) cs(1)
          checkNumberOfRows_cloneEmpty)
  next
    case False
    with ok have hb: "getHeader (data b) = sort_key fst ?cols" and cb: "checkNumberOfRows (data b)"
      by (simp_all add: shard_ok_def)
    let ?ct = "checkThresholdsImpl s (rows (data b) + rows ?sorted) (bytes (data b) + bytes ?sorted) (age b now)"
    obtain t s' where ct: "?ct = (t, s')" by (cases ?ct)
    have ss: "same_setup s s'" using same_setup_checkThresholdsImpl[of s] ct
      by (metis snd_conv)
    have cat: "catalog s' = catalog s" using checkThresholdsImpl_frame(8)[of s] ct by (metis snd_conv)
    have col: "storage_columns s' = ?cols" using ss by (rule same_setup_columns)
    show ?thesis
    proof (cases t)
      case True
      have p: "?p = flushBuffer s' b False True fnow"
        using False ct True by (simp add: before_append_def checkThresholds_eq)
      have sv': "destination_serves s'" using ss sv by (rule destination_serves_cong)
      have ok': "shard_ok (storage_columns s') b" using ok col by simp
      note f = flushBuffer_serves[OF sv' ok', of False True fnow]
      have "shard_ok ?cols (snd (snd ?p))" using f(3) col p by simp
      moreover have "data (snd (snd ?p)) \<noteq> []" using f(6) False p by simp
      ultimately have "getHeader (data (snd (snd ?p))) = sort_key fst ?cols"
        "checkNumberOfRows (data (snd (snd ?p)))"
        by (simp_all add: shard_ok_def)
      moreover have "same_setup s (fst (snd ?p))"
        using same_setup_trans[OF ss f(2)] p by simp
      moreover have "delivered (fst (snd ?p)) + rows_of (data (snd (snd ?p))) = delivered s + rows_of (data b)"
        using f(4) p delivered_cong[OF cat] by simp
      ultimately show ?thesis using f(1) f(6) False p by simp
    next
      case F: False
      have p: "?p = (None, s', b)"
        using False ct F by (simp add: before_append_def checkThresholds_eq)
      show ?thesis
        unfolding p using False ss hb cb delivered_cong[OF cat] by simp
    qed
  qed
  then show "fst ?p = None" "same_setup s (fst (snd ?p))" "data (snd (snd ?p)) \<noteq> []"
    "getHeader (data (snd (snd ?p))) = sort_key fst ?cols"
    "checkNumberOfRows (data (snd (snd ?p)))"
    "delivered (fst (snd ?p)) + rows_of (data (snd (snd ?p))) = delivered s + rows_of (data b)"
    by simp_all
qed

lemma insertIntoBuffer_serves:
  assumes sv: "destination_serves s" and ok: "shard_ok (storage_columns s) b"
    and ch: "check (storage_columns s) block" and ne: "block \<noteq> []"
    and nf: "insert_throws flt = None"
  shows "fst (insertIntoBuffer s block b now fnow flt) = None"
    and "same_setup s (fst (snd (insertIntoBuffer s block b now fnow flt)))"
    and "shard_ok (storage_columns s) (snd (snd (insertIntoBuffer s block b now fnow flt)))"
    and "delivered (fst (snd (insertIntoBuffer s block b now fnow flt)))
           + rows_of (data (snd (snd (insertIntoBuffer s block b now fnow flt))))
         = delivered s + rows_of (data b) + rows_of block"
proof -
  let ?i = "insertIntoBuffer s block b now fnow flt"
  let ?sorted = "sortColumns block"
  have dc: "distinct (map fst (storage_columns s))" using sv by (simp add: destination_serves_def)
  note cs = check_sorted[OF ch dc]
  note p = before_append_serves[OF sv ok ch ne, of now fnow]
  obtain s1 b1 where pe: "before_append s block b now fnow = (None, s1, b1)"
    using p(1) by (cases "before_append s block b now fnow") auto
  have s1: "same_setup s s1" and b1: "data b1 \<noteq> []"
    and h1: "getHeader (data b1) = sort_key fst (storage_columns s)"
    and c1: "checkNumberOfRows (data b1)"
    and d1: "delivered s1 + rows_of (data b1) = delivered s + rows_of (data b)"
    using p(2-6) pe by simp_all
  let ?b2 = "if first_write_time b1 = 0 then b1\<lparr>first_write_time := now\<rparr> else b1"
  have db2: "data ?b2 = data b1" by simp
  have hh: "getHeader ?sorted = getHeader (data b1)" using cs(1) h1 by simp
  note ap = appendBlock_no_fault[OF nf b1 hh cs(2) c1, of s1]
  let ?s2 = "s1\<lparr>StorageBufferRows := StorageBufferRows s1 + int (rows ?sorted),
                 StorageBufferBytes := StorageBufferBytes s1 + int (bytes ?sorted)\<rparr>"
  have ie: "?i = (None, ?s2, ?b2\<lparr>data := appended ?sorted (data b1)\<rparr>)"
    unfolding insertIntoBuffer_eq pe using ap by (simp add: Let_def)
  note af = appended_facts[OF hh cs(2) c1 b1]
  have ra: "rows_of (appended ?sorted (data b1)) = rows_of (data b1) + rows_of block"
    using rows_of_appended[OF hh cs(2) c1 b1] cs(3) by simp
  have ss2: "same_setup s ?s2" using s1 by (simp add: same_setup_def)
  have dl: "delivered ?s2 = delivered s1" by (simp add: delivered_def)
  have so: "shard_ok (storage_columns s) (?b2\<lparr>data := appended ?sorted (data b1)\<rparr>)"
    using af(1) af(3) h1 by (simp add: shard_ok_def)
  have sm: "delivered ?s2 + rows_of (appended ?sorted (data b1)) = delivered s + rows_of (data b) + rows_of block"
    using dl ra d1 by (simp add: ac_simps)
  show "fst ?i = None" "same_setup s (fst (snd ?i))" "shard_ok (storage_columns s) (snd (snd ?i))"
    "delivered (fst (snd ?i)) + rows_of (data (snd (snd ?i))) = delivered s + rows_of (data b) + rows_of block"
    unfolding ie using ss2 so sm by simp_all
qed

lemma least_busy_range:
  assumes "0 < num_shards s" "k < num_shards s"
    and "\<And>i r. best = Some (i, r) \<Longrightarrow> i < num_shards s"
    and "least_busy s owns n k best = Some (i, r)"
  shows "i < num_shards s"
  using assms
proof (induction n arbitrary: k best)
  case 0
  then show ?case by simp
next
  case (Suc n)
  let ?best' = "if owns k
             then (let num_rows = rows (data (buffers s ! k))
                   in (case best of
                         None \<Rightarrow> Some (k, num_rows)
                       | Some (_, least_busy_shard_rows) \<Rightarrow>
                           if num_rows < least_busy_shard_rows then Some (k, num_rows)
                           else best))
             else best"
  have b: "\<And>i r. ?best' = Some (i, r) \<Longrightarrow> i < num_shards s"
    using Suc.prems(2,3) by (auto simp: Let_def split: if_splits option.splits)
  have k': "(k + 1) mod num_shards s < num_shards s" using Suc.prems(1) by simp
  have "least_busy s owns n ((k + 1) mod num_shards s) ?best' = Some (i, r)"
    using Suc.prems(4) by (simp add: Let_def)
  from Suc.IH[OF Suc.prems(1) k' b this] show ?case .
qed

lemma held_update:
  "i < length bufs \<Longrightarrow> held (bufs[i := b]) + rows_of (data (bufs ! i)) = held bufs + rows_of (data b)"
proof (induction bufs arbitrary: i)
  case Nil
  then show ?case by simp
next
  case (Cons a bufs)
  show ?case
  proof (cases i)
    case 0
    then show ?thesis by (simp add: held_def ac_simps)
  next
    case (Suc j)
    with Cons.prems have "j < length bufs" by simp
    from Cons.IH[OF this] Suc show ?thesis
      by (simp add: held_def ac_simps)
  qed
qed

lemma same_setup_reschedule: "same_setup s (reschedule s now)"
  by (simp add: same_setup_def reschedule_def Let_def split: prod.split)

lemma reschedule_frame:
  "buffers (reschedule s now) = buffers s" "catalog (reschedule s now) = catalog s"
  by (simp_all add: reschedule_def Let_def split: prod.split)

lemma chosen_shard_range:
  assumes "buffers s \<noteq> []"
  shows "chosen_shard s env < length (buffers s)"
proof -
  have n: "0 < num_shards s" using assms by (simp add: num_shards_def)
  then have k: "thread_id env mod num_shards s < num_shards s" by simp
  show ?thesis
  proof (cases "least_busy s (owns_lock env) (num_shards s) (thread_id env mod num_shards s) None")
    case None
    then show ?thesis using k by (simp add: chosen_shard_def num_shards_def)
  next
    case (Some ir)
    obtain i r where ir: "ir = (i, r)" by (cases ir)
    have "i < num_shards s"
      using least_busy_range[OF n k _ Some[unfolded ir]] by simp
    then show ?thesis using Some ir by (simp add: chosen_shard_def num_shards_def)
  qed
qed

lemma flushBuffer_buffers:
  "buffers (fst (snd (flushBuffer s b c l now))) = buffers s"
proof (cases "proceeds s b c now")
  case False
  then show ?thesis by (simp add: flushBuffer_gate_closed)
next
  case True
  let ?w = "writeBlockToDestination (data b) (tryGetTable s) (swapped_out s b c now)"
  have "buffers (snd ?w) = buffers s"
    by (simp add: writeBlockToDestination_frame swapped_out_frame)
  then show ?thesis
    by (cases ?w; cases "fst ?w")
       (simp_all add: flushBuffer_gate_open[OF True] Let_def swapped_out_frame)
qed

lemma appendBlock_buffers:
  "buffers (snd (snd (appendBlock flt from to s))) = buffers s"
proof -
  obtain threw to' where r: "append_columns (insert_throws flt) (rows from) 0 from to = (threw, to')"
    by (cases "append_columns (insert_throws flt) (rows from) 0 from to")
  show ?thesis
  proof (cases threw)
    case None
    with r show ?thesis by (simp add: appendBlock_def Let_def)
  next
    case (Some k)
    obtain e to'' where "rollback (cut_throws flt) (rows to) k 0 to' = (e, to'')"
      by (cases "rollback (cut_throws flt) (rows to) k 0 to'")
    with r Some show ?thesis by (simp add: appendBlock_def Let_def)
  qed
qed

lemma before_append_buffers:
  "buffers (fst (snd (before_append s block b now fnow))) = buffers s"
proof -
  let ?ct = "checkThresholdsImpl s (rows (data b) + rows (sortColumns block))
      (bytes (data b) + bytes (sortColumns block)) (age b now)"
  obtain t s' where ct: "?ct = (t, s')" by (cases ?ct)
  have "buffers s' = buffers s" using checkThresholdsImpl_frame(1)[of s] ct by (metis snd_conv)
  then show ?thesis
    using ct by (cases t) (simp_all add: before_append_def checkThresholds_eq flushBuffer_buffers)
qed

lemma insertIntoBuffer_buffers:
  "buffers (fst (snd (insertIntoBuffer s block b now fnow flt))) = buffers s"
proof -
  obtain r1 s1 b1 where p: "before_append s block b now fnow = (r1, s1, b1)"
    by (cases "before_append s block b now fnow")
  have s1: "buffers s1 = buffers s" using before_append_buffers[of s block b now fnow] p by simp
  show ?thesis
  proof (cases r1)
    case None
    let ?b2 = "if first_write_time b1 = 0 then b1\<lparr>first_write_time := now\<rparr> else b1"
    obtain r to' s2 where a: "appendBlock flt (sortColumns block) (data ?b2) s1 = (r, to', s2)"
      by (cases "appendBlock flt (sortColumns block) (data ?b2) s1")
    have "buffers s2 = buffers s1"
      using appendBlock_buffers[of flt "sortColumns block" "data ?b2" s1] a by simp
    then show ?thesis
      unfolding insertIntoBuffer_eq p using None a s1 by (simp add: Let_def)
  next
    case (Some e)
    then show ?thesis unfolding insertIntoBuffer_eq p using s1 by simp
  qed
qed

lemma write_block_admitted:
  assumes "block \<noteq> []" "check (storage_columns s) block" "rows block \<noteq> 0"
    "tryGetTable s \<noteq> Myself"
    "\<not> (rows block > thr_rows (max_thresholds s) \<or> bytes block > thr_bytes (max_thresholds s))"
    "buffers s \<noteq> []"
  shows "write_block s env block =
     (case insertIntoBuffer s block (buffers s ! chosen_shard s env) (insert_time env)
             (flush_time env) (append_faults env) of
        (Some e, s1, buffer') \<Rightarrow> (Some e, s1\<lparr>buffers := (buffers s1)[chosen_shard s env := buffer']\<rparr>)
      | (None, s1, buffer') \<Rightarrow>
          (None, reschedule (s1\<lparr>buffers := (buffers s1)[chosen_shard s env := buffer']\<rparr>)
                   (reschedule_time env)))"
  using assms
  by (simp add: write_block_def Let_def chosen_shard_def num_shards_def split: prod.split option.split)

lemma engine_ok_cong:
  assumes "same_setup s s'" "destination_serves s" "buffers s' \<noteq> []"
    "list_all (shard_ok (storage_columns s)) (buffers s')"
  shows "engine_ok s'"
  using assms destination_serves_cong[OF assms(1,2)] same_setup_columns[OF assms(1)]
  by (simp add: engine_ok_def)

lemma write_block_serves:
  assumes eo: "engine_ok s" and ch: "check (storage_columns s) block"
    and nf: "insert_throws (append_faults env) = None"
  shows "fst (write_block s env block) = None"
    and "engine_ok (snd (write_block s env block))"
    and "same_setup s (snd (write_block s env block))"
    and "delivered (snd (write_block s env block)) + held (buffers (snd (write_block s env block)))
         = delivered s + held (buffers s) + rows_of block"
proof -
  let ?w = "write_block s env block"
  have sv: "destination_serves s" and bn: "buffers s \<noteq> []"
    and so: "list_all (shard_ok (storage_columns s)) (buffers s)"
    using eo by (simp_all add: engine_ok_def)
  from sv obtain t where t: "catalog s = Table t" "tryGetTable s = Table t" "destination_id s \<noteq> None"
    by (rule destination_serves_Table)
  have nm: "tryGetTable s \<noteq> Myself" using t(2) by simp
  have dc: "distinct (map fst (storage_columns s))" using sv by (simp add: destination_serves_def)
  note cs = check_sorted[OF ch dc]
  have all: "fst ?w = None \<and> engine_ok (snd ?w) \<and> same_setup s (snd ?w)
      \<and> delivered (snd ?w) + held (buffers (snd ?w)) = delivered s + held (buffers s) + rows_of block"
  proof (cases "block = [] \<or> rows block = 0")
    case True
    then have w: "?w = (None, s)" using ch by (auto simp: write_block_def Let_def)
    have "rows_of block = {#}" using True by (auto simp: rows_of_def rows_def)
    then show ?thesis unfolding w using eo by (simp add: same_setup_refl)
  next
    case False
    then have ne: "block \<noteq> []" and r0: "rows block \<noteq> 0" by simp_all
    show ?thesis
    proof (cases "rows block > thr_rows (max_thresholds s) \<or> bytes block > thr_bytes (max_thresholds s)")
      case True
      let ?s0 = "s\<lparr>logged := logged s @ [Trace_WritingDirectly (rows block) (bytes block)]\<rparr>"
      have t0: "tryGetTable ?s0 = tryGetTable s"
        by (rule tryGetTable_cong) simp_all
      have w: "?w = writeBlockToDestination block (tryGetTable ?s0) ?s0"
        unfolding t0 using write_block_oversize_eq[OF True, of env] ne ch r0 nm t(3)
        by auto
      have ss0: "same_setup s ?s0" by (simp add: same_setup_def)
      have sv0: "destination_serves ?s0" using ss0 sv by (rule destination_serves_cong)
      have h0: "set (getHeader block) \<subseteq> set (storage_columns ?s0)" using cs(4) by simp
      note d = writeBlockToDestination_serves[OF sv0 h0 cs(5)]
      have bf: "buffers (snd ?w) = buffers s"
        unfolding w by (simp add: writeBlockToDestination_frame)
      have ss: "same_setup s (snd ?w)"
        unfolding w using same_setup_trans[OF ss0 d(2)] .
      have dl: "delivered (snd ?w) = delivered s + rows_of block"
        unfolding w using d(3) by (simp add: delivered_def)
      have "engine_ok (snd ?w)"
        using ss sv bn so bf by (intro engine_ok_cong[of s]) simp_all
      then show ?thesis
        using ss dl bf d(1) w by (simp add: ac_simps)
    next
      case over: False
      let ?k = "chosen_shard s env"
      let ?i = "insertIntoBuffer s block (buffers s ! ?k) (insert_time env) (flush_time env) (append_faults env)"
      have k: "?k < length (buffers s)" using bn by (rule chosen_shard_range)
      have ok: "shard_ok (storage_columns s) (buffers s ! ?k)"
        using so k by (simp add: list_all_length)
      note ins = insertIntoBuffer_serves[OF sv ok ch ne nf, of "insert_time env" "flush_time env"]
      obtain s1 b' where ie: "?i = (None, s1, b')" using ins(1) by (cases ?i) auto
      have b1: "buffers s1 = buffers s"
        using insertIntoBuffer_buffers[of s block "buffers s ! ?k" "insert_time env" "flush_time env" "append_faults env"] ie
        by simp
      let ?s2 = "s1\<lparr>buffers := (buffers s)[?k := b']\<rparr>"
      have w: "?w = (None, reschedule ?s2 (reschedule_time env))"
        using write_block_admitted[OF ne ch r0 nm over bn, of env] ie b1 by simp
      have ss1: "same_setup s s1" and ok': "shard_ok (storage_columns s) b'"
        and sm: "delivered s1 + rows_of (data b') = delivered s + rows_of (data (buffers s ! ?k)) + rows_of block"
        using ins(2-4) ie by simp_all
      have ss2: "same_setup s ?s2" using ss1 by (simp add: same_setup_def)
      have ss: "same_setup s (snd ?w)"
        unfolding w using same_setup_trans[OF ss2 same_setup_reschedule] by simp
      have bf: "buffers (snd ?w) = (buffers s)[?k := b']"
        unfolding w by (simp add: reschedule_frame)
      have dl: "delivered (snd ?w) = delivered s1"
        unfolding w by (simp add: delivered_def reschedule_frame)
      have la: "list_all (shard_ok (storage_columns s)) ((buffers s)[?k := b'])"
        using so ok' k by (auto simp: list_all_length nth_list_update)
      have eo': "engine_ok (snd ?w)"
        using ss sv bn la bf by (intro engine_ok_cong[of s]) simp_all
      have "delivered s1 + held ((buffers s)[?k := b']) + rows_of (data (buffers s ! ?k))
          = delivered s1 + (held (buffers s) + rows_of (data b'))"
        using held_update[OF k, of b'] by (simp add: ac_simps)
      also have "\<dots> = delivered s + rows_of (data (buffers s ! ?k)) + rows_of block + held (buffers s)"
        using sm by (simp add: ac_simps)
      finally have "delivered s1 + held ((buffers s)[?k := b']) = delivered s + held (buffers s) + rows_of block"
        by (simp add: ac_simps)
      then show ?thesis using eo' ss bf dl w by simp
    qed
  qed
  then show "fst ?w = None" "engine_ok (snd ?w)" "same_setup s (snd ?w)"
    "delivered (snd ?w) + held (buffers (snd ?w)) = delivered s + held (buffers s) + rows_of block"
    by simp_all
qed

lemma write_all_serves:
  assumes "engine_ok s" "admissible (storage_columns s) ws"
  shows "fst (write_all s ws) = None \<and> engine_ok (snd (write_all s ws))
       \<and> delivered (snd (write_all s ws)) + held (buffers (snd (write_all s ws)))
           = delivered s + held (buffers s) + rows_written ws"
  using assms
proof (induction ws arbitrary: s)
  case Nil
  then show ?case by (simp add: rows_written_def)
next
  case (Cons w ws)
  obtain env block where w: "w = (env, block)" by (cases w)
  have ch: "check (storage_columns s) block" and nf: "insert_throws (append_faults env) = None"
    and ad: "admissible (storage_columns s) ws"
    using Cons.prems(2) by (simp_all add: admissible_def w)
  note st = write_block_serves[OF Cons.prems(1) ch nf]
  obtain s' where s': "write_block s env block = (None, s')"
    using st(1) by (cases "write_block s env block") auto
  have eo: "engine_ok s'" and ss: "same_setup s s'"
    and sm: "delivered s' + held (buffers s') = delivered s + held (buffers s) + rows_of block"
    using st(2-4) s' by simp_all
  have ad': "admissible (storage_columns s') ws"
    using ad same_setup_columns[OF ss] by simp
  note ih = Cons.IH[OF eo ad']
  have wa: "write_all s (w # ws) = write_all s' ws" using s' by (simp add: w)
  show ?case
    unfolding wa using ih sm by (simp add: rows_written_def w ac_simps)
qed

lemma flush_from_serves:
  assumes "destination_serves s" "list_all (shard_ok (storage_columns s)) bufs"
  shows "fst (flush_from s False clock k bufs) = None
       \<and> same_setup s (fst (snd (flush_from s False clock k bufs)))
       \<and> delivered (fst (snd (flush_from s False clock k bufs)))
             + held (snd (snd (flush_from s False clock k bufs)))
           = delivered s + held bufs
       \<and> list_all (\<lambda>b. rows (data b) = 0) (snd (snd (flush_from s False clock k bufs)))"
  using assms
proof (induction bufs arbitrary: s k)
  case Nil
  then show ?case by (simp add: same_setup_refl)
next
  case (Cons b bufs)
  have ok: "shard_ok (storage_columns s) b" and oks: "list_all (shard_ok (storage_columns s)) bufs"
    using Cons.prems(2) by simp_all
  note f = flushBuffer_serves[OF Cons.prems(1) ok, of False False "clock k"]
  obtain s' b' where fe: "flushBuffer s b False False (clock k) = (None, s', b')"
    using f(1) by (cases "flushBuffer s b False False (clock k)") auto
  have ss: "same_setup s s'" and sm: "delivered s' + rows_of (data b') = delivered s + rows_of (data b)"
    and z: "rows (data b') = 0"
    using f(2) f(4) f(5) fe by simp_all
  have sv': "destination_serves s'" using ss Cons.prems(1) by (rule destination_serves_cong)
  have oks': "list_all (shard_ok (storage_columns s')) bufs"
    using oks same_setup_columns[OF ss] by simp
  note ih = Cons.IH[OF sv' oks', of "k + 1"]
  obtain r s'' bufs' where re: "flush_from s' False clock (k + 1) bufs = (r, s'', bufs')"
    by (cases "flush_from s' False clock (k + 1) bufs")
  have r: "r = None" and ss': "same_setup s' s''"
    and sm': "delivered s'' + held bufs' = delivered s' + held bufs"
    and z': "list_all (\<lambda>b. rows (data b) = 0) bufs'"
    using ih re by simp_all
  have ff: "flush_from s False clock k (b # bufs) = (None, s'', b' # bufs')"
    using fe re r by simp
  have "delivered s'' + held (b' # bufs') = delivered s'' + held bufs' + rows_of (data b')"
    by (simp add: held_def ac_simps)
  also have "\<dots> = delivered s' + rows_of (data b') + held bufs"
    using sm' by (simp add: ac_simps)
  also have "\<dots> = delivered s + held (b # bufs)"
    using sm by (simp add: held_def ac_simps)
  finally have t: "delivered s'' + held (b' # bufs') = delivered s + held (b # bufs)" .
  show ?case
    unfolding ff using same_setup_trans[OF ss ss'] t z z' by simp
qed

lemma held_no_rows: "list_all (\<lambda>b. rows (data b) = 0) bufs \<Longrightarrow> held bufs = {#}"
  by (induction bufs) (simp_all add: held_def rows_of_no_rows)

subsection \<open>The gauges\<close>

lemma bytes_zip_append:
  assumes "length from = length to" "list_all (\<lambda>c. length (col_data c) \<le> n) from"
  shows "bytes (map (\<lambda>(t, f). t\<lparr>col_data := col_data t @ take n (col_data f)\<rparr>) (zip to from))
         = bytes to + bytes from"
  using assms
proof (induction "from" "to" rule: list_induct2)
  case Nil
  then show ?case by (simp add: bytes_def)
next
  case (Cons f fs t ts)
  then show ?case by (simp add: bytes_def col_bytes_def)
qed

lemma bytes_appended:
  assumes "getHeader from = getHeader to" "checkNumberOfRows from"
  shows "bytes (appended from to) = bytes to + bytes from"
proof -
  have len: "length from = length to"
    using assms(1) by (simp add: getHeader_def) (metis length_map)
  have "list_all (\<lambda>c. length (col_data c) \<le> rows from) from"
    using assms(2) by (simp add: checkNumberOfRows_def list_all_iff)
  with len show ?thesis
    unfolding appended_def by (rule bytes_zip_append)
qed

lemma appendBlock_gauges:
  assumes "fst (appendBlock flt from to s) = None"
  shows "StorageBufferRows (snd (snd (appendBlock flt from to s)))
           = StorageBufferRows s + int (rows (fst (snd (appendBlock flt from to s)))) - int (rows to)"
    and "StorageBufferBytes (snd (snd (appendBlock flt from to s)))
           = StorageBufferBytes s + int (bytes (fst (snd (appendBlock flt from to s)))) - int (bytes to)"
proof -
  note a = appendBlock_ok[OF assms]
  have h: "getHeader from = getHeader to" using a(2) by (simp add: blocksHaveEqualStructure_def)
  note af = appended_facts[OF h a(3) a(4) a(1)]
  show "StorageBufferRows (snd (snd (appendBlock flt from to s)))
           = StorageBufferRows s + int (rows (fst (snd (appendBlock flt from to s)))) - int (rows to)"
    unfolding a(5) by (simp add: af(2))
  show "StorageBufferBytes (snd (snd (appendBlock flt from to s)))
           = StorageBufferBytes s + int (bytes (fst (snd (appendBlock flt from to s)))) - int (bytes to)"
    unfolding a(5) by (simp add: bytes_appended[OF h a(3)])
qed

lemma flushBuffer_gauges:
  "StorageBufferRows (fst (snd (flushBuffer s b c l now))) - int (rows (data (snd (snd (flushBuffer s b c l now)))))
     = StorageBufferRows s - int (rows (data b))"
  "StorageBufferBytes (fst (snd (flushBuffer s b c l now))) - int (bytes (data (snd (snd (flushBuffer s b c l now)))))
     = StorageBufferBytes s - int (bytes (data b))"
proof -
  let ?f = "flushBuffer s b c l now"
  have both: "StorageBufferRows (fst (snd ?f)) - int (rows (data (snd (snd ?f)))) = StorageBufferRows s - int (rows (data b))
      \<and> StorageBufferBytes (fst (snd ?f)) - int (bytes (data (snd (snd ?f)))) = StorageBufferBytes s - int (bytes (data b))"
  proof (cases "proceeds s b c now")
    case False
    then show ?thesis by (simp add: flushBuffer_gate_closed)
  next
    case True
    let ?w = "writeBlockToDestination (data b) (tryGetTable s) (swapped_out s b c now)"
    obtain r s3 where w: "?w = (r, s3)" by (cases ?w)
    have g: "StorageBufferRows s3 = StorageBufferRows s - int (rows (data b))"
      "StorageBufferBytes s3 = StorageBufferBytes s - int (bytes (data b))"
      using writeBlockToDestination_frame(8,9)[of "data b" "tryGetTable s" "swapped_out s b c now"] w
      by (simp_all add: swapped_out_frame)
    show ?thesis
      using w g
      by (cases r)
         (simp_all add: flushBuffer_gate_open[OF True] Let_def swapped_out_frame emptied_def
          cloneEmpty_facts(3,4))
  qed
  then show "StorageBufferRows (fst (snd ?f)) - int (rows (data (snd (snd ?f)))) = StorageBufferRows s - int (rows (data b))"
    "StorageBufferBytes (fst (snd ?f)) - int (bytes (data (snd (snd ?f)))) = StorageBufferBytes s - int (bytes (data b))"
    by simp_all
qed

section \<open>Properties of the threshold evaluator\<close>

text \<open>
  C7. The evaluator returns true exactly when all three minimum thresholds are passed, or
  the maximum time, or the maximum rows, or the maximum bytes is passed, every comparison
  being strict. Exactly the counter of the first branch that holds, in the order
  all-min, max-time, max-rows, max-bytes, goes up by one; the other counters, and all of
  them when no branch holds, stay as they were.
\<close>

theorem checkThresholdsImpl_spec:
  "fst (checkThresholdsImpl s rws bts age_s)
     = exceeded (min_thresholds s) (max_thresholds s) rws bts age_s
   \<and> threshold_counters (snd (checkThresholdsImpl s rws bts age_s))
     = bump (first_branch (min_thresholds s) (max_thresholds s) rws bts age_s)
         (threshold_counters s)
   \<and> (fst (checkThresholdsImpl s rws bts age_s)
      = (first_branch (min_thresholds s) (max_thresholds s) rws bts age_s \<noteq> None))"
  by (simp add: checkThresholdsImpl_def exceeded_def first_branch_def bump_def
      threshold_counters_def)

theorem checkThresholdsImpl_spec_witness:
  "fst (checkThresholdsImpl example_storage 30 300 2)
   \<and> threshold_counters (snd (checkThresholdsImpl example_storage 30 300 2)) = [1, 0, 0, 0]
   \<and> fst (checkThresholdsImpl example_storage 5 50 61)
   \<and> threshold_counters (snd (checkThresholdsImpl example_storage 5 50 61)) = [0, 1, 0, 0]"
  using checkThresholdsImpl_spec[of example_storage 30 300 2]
    checkThresholdsImpl_spec[of example_storage 5 50 61]
  by (simp add: exceeded_def first_branch_def bump_def threshold_counters_def example_defs)

section \<open>Properties of the flush\<close>

text \<open>
  C2. When the flush of a shard gets past its gate and the destination write raises \<open>e\<close>,
  the flush raises \<open>e\<close> to its caller; the shard's block is the block it held before the
  flush, so row count and contents are conserved and no partial or empty block is left;
  \<open>first_write_time\<close> is non-zero (it is the time the flush read, and the clock does not
  read zero); \<open>StorageBufferErrorOnFlush\<close> has gone up by one; the gauges are back at their
  values and the destination has received nothing.
\<close>

theorem flushBuffer_rollback:
  assumes p: "proceeds s buffer check_thresholds now"
      and w: "fst (writeBlockToDestination (data buffer) (tryGetTable s) s) = Some e"
      and n: "now \<noteq> 0"
  shows "fst (flushBuffer s buffer check_thresholds locked now) = Some e
       \<and> data (snd (snd (flushBuffer s buffer check_thresholds locked now))) = data buffer
       \<and> first_write_time (snd (snd (flushBuffer s buffer check_thresholds locked now))) \<noteq> 0
       \<and> StorageBufferErrorOnFlush (fst (snd (flushBuffer s buffer check_thresholds locked now)))
           = StorageBufferErrorOnFlush s + 1
       \<and> StorageBufferRows (fst (snd (flushBuffer s buffer check_thresholds locked now)))
           = StorageBufferRows s
       \<and> StorageBufferBytes (fst (snd (flushBuffer s buffer check_thresholds locked now)))
           = StorageBufferBytes s
       \<and> catalog (fst (snd (flushBuffer s buffer check_thresholds locked now))) = catalog s"
proof -
  let ?s2 = "swapped_out s buffer check_thresholds now"
  let ?w = "writeBlockToDestination (data buffer) (tryGetTable s) ?s2"
  have d: "destination_id s \<noteq> None"
  proof
    assume "destination_id s = None"
    then have "writeBlockToDestination (data buffer) (tryGetTable s) s = (None, s)"
      by (simp add: writeBlockToDestination_no_destination)
    with w show False by simp
  qed
  have f: "fst ?w = Some e"
    using w writeBlockToDestination_fst_cong[of ?s2 s "data buffer" "tryGetTable s"]
    by (simp add: swapped_out_frame)
  then obtain s3 where r: "?w = (Some e, s3)"
    by (cases ?w) simp
  have s3: "s3 = snd ?w" using r by simp
  have fl: "flushBuffer s buffer check_thresholds locked now =
      (Some e,
       s3\<lparr>StorageBufferErrorOnFlush := StorageBufferErrorOnFlush s3 + 1,
          StorageBufferRows := StorageBufferRows s3 + int (rows (data buffer)),
          StorageBufferBytes := StorageBufferBytes s3 + int (bytes (data buffer))\<rparr>,
       buffer\<lparr>first_write_time := now\<rparr>)"
    using flushBuffer_gate_open[OF p, of locked] d r by (simp add: Let_def)
  have c: "catalog s3 = catalog s"
    using writeBlockToDestination_failed_catalog[OF f] by (simp add: s3 swapped_out_frame)
  show ?thesis
    using n c by (simp add: fl s3 writeBlockToDestination_frame swapped_out_frame)
qed

theorem flushBuffer_rollback_witness:
  "proceeds (example_storage\<lparr>catalog := Table (example_table\<lparr>write_throws := True\<rparr>),
                             StorageBufferRows := 2, StorageBufferBytes := 36\<rparr>)
     \<lparr>first_write_time = 100, data = kv_block [1, 2] [''a'', ''b'']\<rparr> False 200
   \<and> fst (flushBuffer (example_storage\<lparr>catalog := Table (example_table\<lparr>write_throws := True\<rparr>),
                             StorageBufferRows := 2, StorageBufferBytes := 36\<rparr>)
     \<lparr>first_write_time = 100, data = kv_block [1, 2] [''a'', ''b'']\<rparr> False False 200) = Some DESTINATION_FAILED
   \<and> data (snd (snd (flushBuffer (example_storage\<lparr>catalog := Table (example_table\<lparr>write_throws := True\<rparr>),
                             StorageBufferRows := 2, StorageBufferBytes := 36\<rparr>)
     \<lparr>first_write_time = 100, data = kv_block [1, 2] [''a'', ''b'']\<rparr> False False 200)))
       = kv_block [1, 2] [''a'', ''b'']
   \<and> StorageBufferErrorOnFlush (fst (snd (flushBuffer (example_storage\<lparr>catalog := Table (example_table\<lparr>write_throws := True\<rparr>),
                             StorageBufferRows := 2, StorageBufferBytes := 36\<rparr>)
     \<lparr>first_write_time = 100, data = kv_block [1, 2] [''a'', ''b'']\<rparr> False False 200))) = 1"
proof -
  let ?s = "example_storage\<lparr>catalog := Table (example_table\<lparr>write_throws := True\<rparr>),
                             StorageBufferRows := 2, StorageBufferBytes := 36\<rparr>"
  let ?b = "\<lparr>first_write_time = 100, data = kv_block [1, 2] [''a'', ''b'']\<rparr>"
  have p: "proceeds ?s ?b False 200"
    by (simp add: proceeds_def rows_def example_defs)
  have w: "fst (writeBlockToDestination (data ?b) (tryGetTable ?s) ?s) = Some DESTINATION_FAILED"
    by (simp add: writeBlockToDestination_def tryGetTable_def getByName_def columns_def Let_def example_defs)
  have n: "(200::int) \<noteq> 0" by simp
  have e: "StorageBufferErrorOnFlush ?s = 0" by (simp add: example_defs)
  show ?thesis
    using p e flushBuffer_rollback[OF p w n, of False] by simp
qed

text \<open>
  C8, as the code has it. The flush returns early, leaving the shard, the storage with its
  counters and its gauges unchanged, when thresholds are checked and the threshold
  predicate does not hold on the shard's rows, bytes and age, and when thresholds are not
  checked and the shard holds zero rows. In every other case, also when thresholds are
  checked, the predicate holds and the shard holds zero rows, the flush goes on:
  \<open>StorageBufferFlush\<close> goes up by one.
\<close>

theorem flushBuffer_gate:
  "(\<not> proceeds s buffer check_thresholds now \<longrightarrow>
      flushBuffer s buffer check_thresholds locked now = (None, s, buffer))
   \<and> (proceeds s buffer check_thresholds now \<longrightarrow>
      StorageBufferFlush (fst (snd (flushBuffer s buffer check_thresholds locked now)))
        = StorageBufferFlush s + 1)"
proof (intro conjI impI)
  assume "\<not> proceeds s buffer check_thresholds now"
  then show "flushBuffer s buffer check_thresholds locked now = (None, s, buffer)"
    by (rule flushBuffer_gate_closed)
next
  assume p: "proceeds s buffer check_thresholds now"
  let ?s2 = "swapped_out s buffer check_thresholds now"
  let ?w = "writeBlockToDestination (data buffer) (tryGetTable s) ?s2"
  have "StorageBufferFlush (snd ?w) = StorageBufferFlush s + 1"
    by (simp add: writeBlockToDestination_frame swapped_out_frame)
  then show "StorageBufferFlush (fst (snd (flushBuffer s buffer check_thresholds locked now)))
        = StorageBufferFlush s + 1"
    by (cases ?w; cases "fst ?w")
       (simp_all add: flushBuffer_gate_open[OF p] Let_def swapped_out_frame)
qed

theorem flushBuffer_gate_witness:
  "\<not> proceeds example_storage \<lparr>first_write_time = 0, data = kv_block [] []\<rparr> False 200
   \<and> flushBuffer example_storage \<lparr>first_write_time = 0, data = kv_block [] []\<rparr> False False 200
       = (None, example_storage, \<lparr>first_write_time = 0, data = kv_block [] []\<rparr>)
   \<and> proceeds example_storage \<lparr>first_write_time = 100, data = kv_block [1] [''a'']\<rparr> False 200
   \<and> StorageBufferFlush (fst (snd (flushBuffer example_storage
         \<lparr>first_write_time = 100, data = kv_block [1] [''a'']\<rparr> False False 200))) = 1"
proof -
  have a: "\<not> proceeds example_storage \<lparr>first_write_time = 0, data = kv_block [] []\<rparr> False 200"
    by (simp add: proceeds_def rows_def example_defs)
  have b: "proceeds example_storage \<lparr>first_write_time = 100, data = kv_block [1] [''a'']\<rparr> False 200"
    by (simp add: proceeds_def rows_def example_defs)
  have c: "StorageBufferFlush example_storage = 0"
    by (simp add: example_defs)
  show ?thesis
    using a b c
      flushBuffer_gate[of example_storage "\<lparr>first_write_time = 0, data = kv_block [] []\<rparr>" False 200 False]
      flushBuffer_gate[of example_storage "\<lparr>first_write_time = 100, data = kv_block [1] [''a'']\<rparr>" False 200 False]
    by simp
qed

text \<open>
  The property fails as the spec words it: a shard that holds zero rows but has a first write time 100
  seconds back is past the maximum time of 60 seconds, so a flush that checks thresholds
  does not return early. It counts a flush and resets the first write time.
\<close>

theorem flushBuffer_empty_not_skipped:
  "rows (data \<lparr>first_write_time = 100, data = kv_block [] []\<rparr>) = 0
   \<and> exceeded example_min example_max 0 0 (200 - 100)
   \<and> StorageBufferFlush example_storage = 0
   \<and> StorageBufferFlush (fst (snd (flushBuffer example_storage
         \<lparr>first_write_time = 100, data = kv_block [] []\<rparr> True False 200))) = 1
   \<and> first_write_time (snd (snd (flushBuffer example_storage
         \<lparr>first_write_time = 100, data = kv_block [] []\<rparr> True False 200))) = 0"
proof -
  let ?b = "\<lparr>first_write_time = 100, data = kv_block [] []\<rparr>"
  have p: "proceeds example_storage ?b True 200"
    by (simp add: proceeds_def rows_def bytes_def age_def exceeded_def example_defs)
  have w: "writeBlockToDestination (data ?b) (tryGetTable example_storage)
            (swapped_out example_storage ?b True 200)
           = (None, (swapped_out example_storage ?b True 200)\<lparr>catalog := Table (example_table\<lparr>written := [kv_block [] []]\<rparr>)\<rparr>)"
    by (simp add: writeBlockToDestination_def swapped_out_frame tryGetTable_def getByName_def columns_def Let_def example_defs)
  have d: "destination_id example_storage \<noteq> None" by (simp add: example_defs)
  have "flushBuffer example_storage ?b True False 200 =
     (None, (swapped_out example_storage ?b True 200)\<lparr>catalog := Table (example_table\<lparr>written := [kv_block [] []]\<rparr>)\<rparr>, emptied ?b)"
    using flushBuffer_gate_open[OF p, of False] d w by (simp add: Let_def)
  then show ?thesis
    by (simp add: swapped_out_frame emptied_def) (simp add: rows_def exceeded_def example_defs)
qed

text \<open>
  C10. When a destination is configured but the table cannot be resolved at flush time, or
  its structure shares no column with the flushed block, a flush that gets past its gate
  completes without raising: the shard is left emptied with \<open>first_write_time = 0\<close>, the
  block is discarded with one error message in the log (none for a block without columns),
  \<open>StorageBufferErrorOnFlush\<close> keeps its value, nothing is rolled back and the destination
  receives nothing.
\<close>

theorem flushBuffer_discards:
  assumes p: "proceeds s buffer check_thresholds now"
      and d: "destination_id s \<noteq> None"
      and u: "tryGetTable s = NoSuchTable
              \<or> (\<exists>t. tryGetTable s = Table t
                   \<and> set (map fst (destination_structure s t)) \<inter> set (map col_name (data buffer)) = {})"
  shows "flushBuffer s buffer check_thresholds locked now =
           (None,
            (swapped_out s buffer check_thresholds now)
              \<lparr>logged := logged (swapped_out s buffer check_thresholds now)
                   @ (if data buffer = [] then [] else [discard_message (tryGetTable s)])\<rparr>,
            emptied buffer)
       \<and> rows (data (emptied buffer)) = 0
       \<and> first_write_time (emptied buffer) = 0
       \<and> StorageBufferErrorOnFlush (fst (snd (flushBuffer s buffer check_thresholds locked now)))
           = StorageBufferErrorOnFlush s
       \<and> catalog (fst (snd (flushBuffer s buffer check_thresholds locked now))) = catalog s"
proof -
  let ?s2 = "swapped_out s buffer check_thresholds now"
  let ?s3 = "?s2\<lparr>logged := logged ?s2
                   @ (if data buffer = [] then [] else [discard_message (tryGetTable s)])\<rparr>"
  have d2: "destination_id ?s2 \<noteq> None" using d by (simp add: swapped_out_frame)
  have w: "writeBlockToDestination (data buffer) (tryGetTable s) ?s2 = (None, ?s3)"
  proof (cases "data buffer = []")
    case True
    then show ?thesis by (simp add: writeBlockToDestination_no_destination)
  next
    case False
    from u show ?thesis
    proof
      assume "tryGetTable s = NoSuchTable"
      then show ?thesis
        using False writeBlockToDestination_missing[OF d2 False]
        by (simp add: discard_message_def)
    next
      assume "\<exists>t. tryGetTable s = Table t
                   \<and> set (map fst (destination_structure s t)) \<inter> set (map col_name (data buffer)) = {}"
      then obtain t where t: "tryGetTable s = Table t"
        and i: "set (map fst (destination_structure s t)) \<inter> set (map col_name (data buffer)) = {}"
        by blast
      have "destination_structure ?s2 t = destination_structure s t"
        by (simp add: destination_structure_def swapped_out_frame)
      with i have "set (map fst (destination_structure ?s2 t)) \<inter> set (map col_name (data buffer)) = {}"
        by simp
      from writeBlockToDestination_no_common[OF d2 False this] show ?thesis
        using False t by (simp add: discard_message_def)
    qed
  qed
  have fl: "flushBuffer s buffer check_thresholds locked now = (None, ?s3, emptied buffer)"
    using flushBuffer_gate_open[OF p, of locked] d w by (simp add: Let_def)
  have e: "rows (data (emptied buffer)) = 0"
    by (cases "data buffer") (simp_all add: emptied_def cloneEmpty_def rows_def)
  show ?thesis
    using e by (simp add: fl swapped_out_frame) (simp add: emptied_def)
qed

theorem flushBuffer_discards_witness:
  "proceeds (example_storage\<lparr>catalog := NoSuchTable\<rparr>)
     \<lparr>first_write_time = 100, data = kv_block [1] [''a'']\<rparr> False 200
   \<and> destination_id (example_storage\<lparr>catalog := NoSuchTable\<rparr>) \<noteq> None
   \<and> tryGetTable (example_storage\<lparr>catalog := NoSuchTable\<rparr>) = NoSuchTable
   \<and> fst (flushBuffer (example_storage\<lparr>catalog := NoSuchTable\<rparr>)
         \<lparr>first_write_time = 100, data = kv_block [1] [''a'']\<rparr> False False 200) = None
   \<and> snd (snd (flushBuffer (example_storage\<lparr>catalog := NoSuchTable\<rparr>)
         \<lparr>first_write_time = 100, data = kv_block [1] [''a'']\<rparr> False False 200))
       = \<lparr>first_write_time = 0, data = kv_block [] []\<rparr>
   \<and> StorageBufferErrorOnFlush (fst (snd (flushBuffer (example_storage\<lparr>catalog := NoSuchTable\<rparr>)
         \<lparr>first_write_time = 100, data = kv_block [1] [''a'']\<rparr> False False 200))) = 0"
proof -
  let ?s = "example_storage\<lparr>catalog := NoSuchTable\<rparr>"
  let ?b = "\<lparr>first_write_time = 100, data = kv_block [1] [''a'']\<rparr>"
  have p: "proceeds ?s ?b False 200"
    by (simp add: proceeds_def rows_def example_defs)
  have d: "destination_id ?s \<noteq> None" by (simp add: example_defs)
  have t: "tryGetTable ?s = NoSuchTable" by (simp add: tryGetTable_def example_defs)
  have u: "tryGetTable ?s = NoSuchTable
              \<or> (\<exists>t. tryGetTable ?s = Table t
                   \<and> set (map fst (destination_structure ?s t)) \<inter> set (map col_name (data ?b)) = {})"
    using t by simp
  have e: "StorageBufferErrorOnFlush ?s = 0" "emptied ?b = \<lparr>first_write_time = 0, data = kv_block [] []\<rparr>"
    by (simp_all add: example_defs emptied_def cloneEmpty_def)
  note f = flushBuffer_discards[OF p d u, of False]
  have f1: "fst (flushBuffer ?s ?b False False 200) = None"
    and f2: "snd (snd (flushBuffer ?s ?b False False 200)) = emptied ?b"
    using f by simp_all
  have f3: "StorageBufferErrorOnFlush (fst (snd (flushBuffer ?s ?b False False 200))) = 0"
    using f[THEN conjunct2, THEN conjunct2, THEN conjunct2, THEN conjunct1] e(1) by simp
  show ?thesis
    using p d t f1 f2 f3 e(2) by simp
qed

text \<open>
  C3. The code takes the first write time of the last shard, not the oldest one. With two
  shards first written at 100 and at 105, thresholds min.time = 10 and max.time = 60, and
  the clock at 110, the oldest age is 10 seconds and the deadline of the spec is 1 second;
  the code schedules the next fire after 5 seconds.
\<close>

theorem reschedule_takes_last_shard:
  "scheduled (reschedule two_shards 110) = Some 5000
   \<and> next_fire_seconds two_shards 110 = Some 1"
  by (simp add: reschedule_def next_fire_seconds_def oldest_first_write_time_def
      time_t_max_def two_shards_def rows_def example_defs)

text \<open>
  C9, as the code has it. \<open>totalRows\<close> is the sum of the shards' row counts plus the rows
  the destination reports, when the destination is resolved and reports a count; it is
  unknown when the destination reports unknown, and also when no destination is configured
  or the configured one cannot be resolved. \<open>totalBytes\<close> is always the sum of the shards'
  byte counts.
\<close>

theorem totalRows_totalBytes:
  "(tryGetTable s = Table t \<and> reported_rows t = Some n \<longrightarrow>
      totalRows s = Some (Some (sum_list (map (\<lambda>buffer. rows (data buffer)) (buffers s)) + n)))
   \<and> (tryGetTable s = Table t \<and> reported_rows t = None \<longrightarrow> totalRows s = Some None)
   \<and> (tryGetTable s = NoSuchTable \<longrightarrow> totalRows s = Some None)
   \<and> totalBytes s = Some (sum_list (map (\<lambda>buffer. bytes (data buffer)) (buffers s)))"
  by (auto simp: totalRows_not_myself totalBytes_def)

theorem totalRows_totalBytes_witness:
  "tryGetTable two_shards = Table example_table \<and> reported_rows example_table = Some 7
   \<and> totalRows two_shards = Some (Some 9)
   \<and> tryGetTable (two_shards\<lparr>catalog := Table (example_table\<lparr>reported_rows := None\<rparr>)\<rparr>)
       = Table (example_table\<lparr>reported_rows := None\<rparr>)
   \<and> reported_rows (example_table\<lparr>reported_rows := None\<rparr>) = None
   \<and> totalRows (two_shards\<lparr>catalog := Table (example_table\<lparr>reported_rows := None\<rparr>)\<rparr>) = Some None
   \<and> tryGetTable (two_shards\<lparr>catalog := NoSuchTable\<rparr>) = NoSuchTable
   \<and> totalRows (two_shards\<lparr>catalog := NoSuchTable\<rparr>) = Some None
   \<and> totalBytes two_shards = Some 36"
proof -
  have a: "tryGetTable two_shards = Table example_table" "reported_rows example_table = Some 7"
    by (simp_all add: tryGetTable_def two_shards_def example_defs)
  have b: "tryGetTable (two_shards\<lparr>catalog := Table (example_table\<lparr>reported_rows := None\<rparr>)\<rparr>)
       = Table (example_table\<lparr>reported_rows := None\<rparr>)"
    "reported_rows (example_table\<lparr>reported_rows := None\<rparr>) = None"
    by (simp_all add: tryGetTable_def two_shards_def example_defs)
  have c: "tryGetTable (two_shards\<lparr>catalog := NoSuchTable\<rparr>) = NoSuchTable"
    by (simp add: tryGetTable_def two_shards_def example_defs)
  have r: "sum_list (map (\<lambda>buffer. rows (data buffer)) (buffers two_shards)) = 2"
    "sum_list (map (\<lambda>buffer. bytes (data buffer)) (buffers two_shards)) = 36"
    by (simp_all add: two_shards_def rows_def bytes_def col_bytes_def example_defs)
  show ?thesis
    using a b c r totalRows_totalBytes[of two_shards example_table 7]
      totalRows_totalBytes[of "two_shards\<lparr>catalog := Table (example_table\<lparr>reported_rows := None\<rparr>)\<rparr>"
                "example_table\<lparr>reported_rows := None\<rparr>" 0]
      totalRows_totalBytes[of "two_shards\<lparr>catalog := NoSuchTable\<rparr>" example_table 0]
    by simp
qed

text \<open>
  The property fails as the spec words it: with no destination configured and two rows in the shards,
  \<open>totalRows\<close> answers "unknown", not 2.
\<close>

theorem totalRows_unknown_without_destination:
  "destination_id (two_shards\<lparr>destination_id := None\<rparr>) = None
   \<and> sum_list (map (\<lambda>buffer. rows (data buffer)) (buffers (two_shards\<lparr>destination_id := None\<rparr>))) = 2
   \<and> totalRows (two_shards\<lparr>destination_id := None\<rparr>) = Some None"
  by (subst totalRows.simps)
     (simp add: tryGetTable_def two_shards_def rows_def example_defs)

text \<open>
  C6. A written block with more rows than \<open>max.rows\<close> or more bytes than \<open>max.bytes\<close> never
  reaches a shard: the shards (data and first write time), the flush counter and the two
  gauges are as before the write, whatever the write returns. With no destination the
  block is dropped and the storage is unchanged. With a destination, a block that passes
  the schema check is handed to the destination write as it is, and a destination that is
  present, shares a column with the block and does not throw receives it.
\<close>

theorem write_block_oversize:
  assumes "rows block > thr_rows (max_thresholds s) \<or> bytes block > thr_bytes (max_thresholds s)"
  shows "buffers (snd (write_block s env block)) = buffers s
       \<and> StorageBufferFlush (snd (write_block s env block)) = StorageBufferFlush s
       \<and> StorageBufferRows (snd (write_block s env block)) = StorageBufferRows s
       \<and> StorageBufferBytes (snd (write_block s env block)) = StorageBufferBytes s
       \<and> (destination_id s = None \<longrightarrow> snd (write_block s env block) = s)
       \<and> (destination_id s \<noteq> None \<and> check (storage_columns s) block \<and> rows block \<noteq> 0
            \<and> tryGetTable s \<noteq> Myself \<longrightarrow>
          write_block s env block =
            writeBlockToDestination block (tryGetTable s)
              (s\<lparr>logged := logged s @ [Trace_WritingDirectly (rows block) (bytes block)]\<rparr>))
       \<and> (destination_id s \<noteq> None \<and> check (storage_columns s) block \<and> rows block \<noteq> 0
            \<and> tryGetTable s = Table t \<and> \<not> write_throws t
            \<and> fst (intersect_columns (castColumn s) (destination_structure s t) block) \<noteq> [] \<longrightarrow>
          fst (write_block s env block) = None
          \<and> catalog (snd (write_block s env block))
              = Table (t\<lparr>written := written t
                   @ [fst (intersect_columns (castColumn s) (destination_structure s t) block)]\<rparr>))"
proof -
  let ?s = "s\<lparr>logged := logged s @ [Trace_WritingDirectly (rows block) (bytes block)]\<rparr>"
  note eq = write_block_oversize_eq[OF assms, of env]
  have frame: "buffers (snd (write_block s env block)) = buffers s
       \<and> StorageBufferFlush (snd (write_block s env block)) = StorageBufferFlush s
       \<and> StorageBufferRows (snd (write_block s env block)) = StorageBufferRows s
       \<and> StorageBufferBytes (snd (write_block s env block)) = StorageBufferBytes s"
    by (simp add: eq writeBlockToDestination_frame)
  have none: "destination_id s = None \<longrightarrow> snd (write_block s env block) = s"
    by (simp add: eq)
  have direct: "destination_id s \<noteq> None \<and> check (storage_columns s) block \<and> rows block \<noteq> 0
            \<and> tryGetTable s \<noteq> Myself \<longrightarrow>
          write_block s env block = writeBlockToDestination block (tryGetTable s) ?s"
    by (auto simp: eq writeBlockToDestination_no_destination rows_def)
  have deliv: "destination_id s \<noteq> None \<and> check (storage_columns s) block \<and> rows block \<noteq> 0
            \<and> tryGetTable s = Table t \<and> \<not> write_throws t
            \<and> fst (intersect_columns (castColumn s) (destination_structure s t) block) \<noteq> [] \<longrightarrow>
          fst (write_block s env block) = None
          \<and> catalog (snd (write_block s env block))
              = Table (t\<lparr>written := written t
                   @ [fst (intersect_columns (castColumn s) (destination_structure s t) block)]\<rparr>)"
  proof (intro impI, elim conjE)
    assume a: "destination_id s \<noteq> None" "check (storage_columns s) block" "rows block \<noteq> 0"
      "tryGetTable s = Table t" "\<not> write_throws t"
      "fst (intersect_columns (castColumn s) (destination_structure s t) block) \<noteq> []"
    have w: "write_block s env block = writeBlockToDestination block (Table t) ?s"
      using direct a by simp
    have d: "destination_id ?s \<noteq> None" using a(1) by simp
    have i: "fst (intersect_columns (castColumn ?s) (destination_structure ?s t) block) \<noteq> []"
      using a(6) by (simp add: destination_structure_def)
    show "fst (write_block s env block) = None
          \<and> catalog (snd (write_block s env block))
              = Table (t\<lparr>written := written t
                   @ [fst (intersect_columns (castColumn s) (destination_structure s t) block)]\<rparr>)"
      using writeBlockToDestination_delivers[OF d a(5) i]
      by (simp add: w destination_structure_def)
  qed
  show ?thesis
    using frame none direct deliv by blast
qed

theorem write_block_oversize_witness:
  "rows (kv_block [1, 2] [''a'', ''b'']) > thr_rows (max_thresholds small_max)
   \<and> destination_id small_max \<noteq> None
   \<and> check (storage_columns small_max) (kv_block [1, 2] [''a'', ''b''])
   \<and> tryGetTable small_max = Table example_table
   \<and> \<not> write_throws example_table
   \<and> fst (write_block small_max example_env (kv_block [1, 2] [''a'', ''b''])) = None
   \<and> catalog (snd (write_block small_max example_env (kv_block [1, 2] [''a'', ''b''])))
       = Table (example_table\<lparr>written := [kv_block [1, 2] [''a'', ''b'']]\<rparr>)
   \<and> buffers (snd (write_block small_max example_env (kv_block [1, 2] [''a'', ''b'']))) = buffers small_max
   \<and> StorageBufferFlush (snd (write_block small_max example_env (kv_block [1, 2] [''a'', ''b''])))
       = StorageBufferFlush small_max
   \<and> destination_id (small_max\<lparr>destination_id := None\<rparr>) = None
   \<and> snd (write_block (small_max\<lparr>destination_id := None\<rparr>) example_env (kv_block [1, 2] [''a'', ''b'']))
       = small_max\<lparr>destination_id := None\<rparr>"
proof -
  let ?b = "kv_block [1, 2] [''a'', ''b'']"
  let ?n = "small_max\<lparr>destination_id := None\<rparr>"
  have o: "rows ?b > thr_rows (max_thresholds small_max) \<or> bytes ?b > thr_bytes (max_thresholds small_max)"
    and o': "rows ?b > thr_rows (max_thresholds small_max)"
    by (simp_all add: rows_def small_max_def example_defs)
  have on: "rows ?b > thr_rows (max_thresholds ?n) \<or> bytes ?b > thr_bytes (max_thresholds ?n)"
    by (simp add: rows_def small_max_def example_defs)
  have d: "destination_id small_max \<noteq> None" "destination_id ?n = None"
    by (simp_all add: small_max_def example_defs)
  have c: "check (storage_columns small_max) ?b"
    by (simp add: check_def getHeader_def checkNumberOfRows_def rows_def small_max_def example_defs) 
  have r: "rows ?b \<noteq> 0" by (simp add: rows_def example_defs)
  have t: "tryGetTable small_max = Table example_table"
    by (simp add: tryGetTable_def small_max_def example_defs)
  have w: "\<not> write_throws example_table" "written example_table = []" by (simp_all add: example_defs)
  have i: "fst (intersect_columns (castColumn small_max) (destination_structure small_max example_table) ?b) = ?b"
    by (simp add: destination_structure_def getByName_def small_max_def example_defs)
  have ne: "?b \<noteq> []" by (simp add: example_defs)
  note f = write_block_oversize[OF o, of example_env example_table]
  note g = write_block_oversize[OF on, of example_env example_table]
  note f7 = f[THEN conjunct2, THEN conjunct2, THEN conjunct2, THEN conjunct2, THEN conjunct2,
      THEN conjunct2, THEN mp]
  have f1: "fst (write_block small_max example_env ?b) = None"
    and f2: "catalog (snd (write_block small_max example_env ?b)) = Table (example_table\<lparr>written := [?b]\<rparr>)"
    using f7 d(1) c r t w i ne by simp_all
  have f3: "buffers (snd (write_block small_max example_env ?b)) = buffers small_max"
    and f4: "StorageBufferFlush (snd (write_block small_max example_env ?b)) = StorageBufferFlush small_max"
    using f[THEN conjunct1] f[THEN conjunct2, THEN conjunct1] by simp_all
  have g1: "snd (write_block ?n example_env ?b) = ?n"
    using g[THEN conjunct2, THEN conjunct2, THEN conjunct2, THEN conjunct2, THEN conjunct1] d(2)
    by simp
  show ?thesis
    using o' d c t w(1) f1 f2 f3 f4 g1 by simp
qed

text \<open>
  C5. An insert into a shard that holds rows, with the threshold predicate holding on the
  shard's totals plus the incoming block's and on the shard's age, calls \<open>flushBuffer\<close> with
  \<open>check_thresholds\<close> false and \<open>locked\<close> true before it appends. If that flush raises, the
  insert ends there with the same error and the same state: the incoming block is not
  appended and the shard keeps the rows it held. If the flush returns, it has emptied the
  shard and the destination is exactly as the write of the old block alone leaves it, and
  the insert is the append of the incoming block, columns sorted, onto the emptied shard
  in the storage the flush left. If the insert returns normally, the shard holds the
  incoming block and nothing else, first written at the time of the insert, the flush
  counter has gone up by one, and the gauges have lost the old block and gained the new
  one.
\<close>

theorem insertIntoBuffer_inline_flush:
  assumes ne: "rows (data buffer) \<noteq> 0"
    and th: "exceeded (min_thresholds s) (max_thresholds s)
               (rows (data buffer) + rows (sortColumns block))
               (bytes (data buffer) + bytes (sortColumns block)) (age buffer now)"
  shows "(fst (inline_flush s block buffer now flush_now) \<noteq> None \<longrightarrow>
            insertIntoBuffer s block buffer now flush_now flt
              = inline_flush s block buffer now flush_now
          \<and> data (snd (snd (insertIntoBuffer s block buffer now flush_now flt))) = data buffer)
       \<and> (fst (inline_flush s block buffer now flush_now) = None \<longrightarrow>
            snd (snd (inline_flush s block buffer now flush_now)) = emptied buffer
          \<and> catalog (fst (snd (inline_flush s block buffer now flush_now)))
              = catalog (snd (writeBlockToDestination (data buffer) (tryGetTable s) s))
          \<and> insertIntoBuffer s block buffer now flush_now flt
              = (let (r, to', s2) = appendBlock flt (sortColumns block) (cloneEmpty (data buffer))
                                      (fst (snd (inline_flush s block buffer now flush_now)))
                 in (r, s2, \<lparr>first_write_time = now, data = to'\<rparr>)))
       \<and> (fst (insertIntoBuffer s block buffer now flush_now flt) = None \<longrightarrow>
            snd (snd (insertIntoBuffer s block buffer now flush_now flt))
              = \<lparr>first_write_time = now, data = sortColumns block\<rparr>
          \<and> catalog (fst (snd (insertIntoBuffer s block buffer now flush_now flt)))
              = catalog (snd (writeBlockToDestination (data buffer) (tryGetTable s) s))
          \<and> StorageBufferFlush (fst (snd (insertIntoBuffer s block buffer now flush_now flt)))
              = StorageBufferFlush s + 1
          \<and> StorageBufferRows (fst (snd (insertIntoBuffer s block buffer now flush_now flt)))
              = StorageBufferRows s - int (rows (data buffer)) + int (rows (sortColumns block))
          \<and> StorageBufferBytes (fst (snd (insertIntoBuffer s block buffer now flush_now flt)))
              = StorageBufferBytes s - int (bytes (data buffer)) + int (bytes (sortColumns block)))"
proof -
  let ?sorted = "sortColumns block"
  let ?ct = "checkThresholdsImpl s (rows (data buffer) + rows ?sorted)
               (bytes (data buffer) + bytes ?sorted) (age buffer now)"
  let ?ins = "insertIntoBuffer s block buffer now flush_now flt"
  obtain s1 where c: "checkThresholds s buffer now (rows ?sorted) (bytes ?sorted) = (True, s1)"
    and s1: "s1 = snd ?ct"
    using th checkThresholdsImpl_fst[of s "rows (data buffer) + rows ?sorted"
        "bytes (data buffer) + bytes ?sorted" "age buffer now"]
    by (cases ?ct) (simp add: checkThresholds_eq)
  have d: "data buffer \<noteq> []" using ne by (auto simp: rows_def)
  have p: "proceeds s1 buffer False flush_now" using ne by (simp add: proceeds_def)
  obtain r1 sF bF where f: "flushBuffer s1 buffer False True flush_now = (r1, sF, bF)"
    by (cases "flushBuffer s1 buffer False True flush_now")
  have il: "inline_flush s block buffer now flush_now = (r1, sF, bF)"
    by (simp add: inline_flush_def c f)
  note br = insertIntoBuffer_flush_branch[OF d c f, of flt]
  have t1: "tryGetTable s1 = tryGetTable s"
    by (rule tryGetTable_cong) (simp_all add: s1 checkThresholdsImpl_frame)
  have cat: "catalog (snd (writeBlockToDestination (data buffer) (tryGetTable s) s1))
           = catalog (snd (writeBlockToDestination (data buffer) (tryGetTable s) s))"
    by (rule writeBlockToDestination_catalog_cong) (simp_all add: s1 checkThresholdsImpl_frame)
  have failed: "?ins = (r1, sF, bF) \<and> data (snd (snd ?ins)) = data buffer" if ko: "r1 \<noteq> None"
  proof -
    from ko obtain e where e: "r1 = Some e" by (cases r1) simp_all
    have i: "?ins = (r1, sF, bF)" using br e by simp
    have "fst (flushBuffer s1 buffer False True flush_now) \<noteq> None" using f ko by simp
    from flushBuffer_failed[OF p this] f have "bF = buffer\<lparr>first_write_time := flush_now\<rparr>" by simp
    with i show ?thesis by simp
  qed
  have flushed: "bF = emptied buffer
      \<and> catalog sF = catalog (snd (writeBlockToDestination (data buffer) (tryGetTable s) s))
      \<and> StorageBufferFlush sF = StorageBufferFlush s + 1
      \<and> StorageBufferRows sF = StorageBufferRows s - int (rows (data buffer))
      \<and> StorageBufferBytes sF = StorageBufferBytes s - int (bytes (data buffer))
      \<and> ?ins = (let (r, to', s2) = appendBlock flt ?sorted (cloneEmpty (data buffer)) sF
                in (r, s2, \<lparr>first_write_time = now, data = to'\<rparr>))" if r1: "r1 = None"
  proof -
    have fok: "fst (flushBuffer s1 buffer False True flush_now) = None" using f r1 by simp
    note fo = flushBuffer_ok[OF p fok]
    have bF: "bF = emptied buffer" using fo(1) f by simp
    have ins: "?ins = (let (r, to', s2) = appendBlock flt ?sorted (cloneEmpty (data buffer)) sF
                       in (r, s2, \<lparr>first_write_time = now, data = to'\<rparr>))"
      using br r1 bF by (simp add: emptied_def Let_def split: prod.split)
    show ?thesis
      using fo(2-5) cat bF ins f
      by (simp add: t1) (simp add: s1 checkThresholdsImpl_frame)
  qed
  have returned: "snd (snd ?ins) = \<lparr>first_write_time = now, data = ?sorted\<rparr>
      \<and> catalog (fst (snd ?ins)) = catalog (snd (writeBlockToDestination (data buffer) (tryGetTable s) s))
      \<and> StorageBufferFlush (fst (snd ?ins)) = StorageBufferFlush s + 1
      \<and> StorageBufferRows (fst (snd ?ins))
          = StorageBufferRows s - int (rows (data buffer)) + int (rows ?sorted)
      \<and> StorageBufferBytes (fst (snd ?ins))
          = StorageBufferBytes s - int (bytes (data buffer)) + int (bytes ?sorted)"
    if ok: "fst ?ins = None"
  proof -
    have r1: "r1 = None" using ok br by (cases r1) simp_all
    note fl = flushed[OF r1]
    have ins: "?ins = (let (r, to', s2) = appendBlock flt ?sorted (cloneEmpty (data buffer)) sF
                       in (r, s2, \<lparr>first_write_time = now, data = to'\<rparr>))"
      using fl by (elim conjE)
    have aok: "fst (appendBlock flt ?sorted (cloneEmpty (data buffer)) sF) = None"
      using ok ins by (cases "appendBlock flt ?sorted (cloneEmpty (data buffer)) sF") (simp add: Let_def)
    note ab = appendBlock_ok[OF aok]
    have ap: "appended ?sorted (cloneEmpty (data buffer)) = ?sorted"
      using ab(2) ab(3) by (intro appended_onto_empty) (simp_all add: blocksHaveEqualStructure_def cloneEmpty_facts)
    have res: "?ins =
        (None,
         sF\<lparr>StorageBufferRows := StorageBufferRows sF + int (rows ?sorted),
            StorageBufferBytes := StorageBufferBytes sF + int (bytes ?sorted)\<rparr>,
         \<lparr>first_write_time = now, data = ?sorted\<rparr>)"
      using ins ab(5) ap by simp
    show ?thesis
      using fl by (simp add: res)
  qed
  show ?thesis
  proof (intro conjI impI)
    assume "fst (inline_flush s block buffer now flush_now) \<noteq> None"
    then have ko: "r1 \<noteq> None" by (simp add: il)
    show "?ins = inline_flush s block buffer now flush_now"
      using failed[OF ko] by (simp add: il)
    show "data (snd (snd ?ins)) = data buffer"
      using failed[OF ko] by (elim conjE)
  next
    assume "fst (inline_flush s block buffer now flush_now) = None"
    then have r1: "r1 = None" by (simp add: il)
    show "snd (snd (inline_flush s block buffer now flush_now)) = emptied buffer"
      using flushed[OF r1] by (simp add: il)
    show "catalog (fst (snd (inline_flush s block buffer now flush_now)))
        = catalog (snd (writeBlockToDestination (data buffer) (tryGetTable s) s))"
      using flushed[OF r1] by (simp add: il)
    show "?ins = (let (r, to', s2) = appendBlock flt ?sorted (cloneEmpty (data buffer))
                                      (fst (snd (inline_flush s block buffer now flush_now)))
                  in (r, s2, \<lparr>first_write_time = now, data = to'\<rparr>))"
      using flushed[OF r1] unfolding il by (elim conjE) simp
  next
    assume ok: "fst ?ins = None"
    note re = returned[OF ok]
    show "snd (snd ?ins) = \<lparr>first_write_time = now, data = ?sorted\<rparr>"
      by (rule re[THEN conjunct1])
    show "catalog (fst (snd ?ins)) = catalog (snd (writeBlockToDestination (data buffer) (tryGetTable s) s))"
      by (rule re[THEN conjunct2, THEN conjunct1])
    show "StorageBufferFlush (fst (snd ?ins)) = StorageBufferFlush s + 1"
      by (rule re[THEN conjunct2, THEN conjunct2, THEN conjunct1])
    show "StorageBufferRows (fst (snd ?ins))
          = StorageBufferRows s - int (rows (data buffer)) + int (rows ?sorted)"
      by (rule re[THEN conjunct2, THEN conjunct2, THEN conjunct2, THEN conjunct1])
    show "StorageBufferBytes (fst (snd ?ins))
          = StorageBufferBytes s - int (bytes (data buffer)) + int (bytes ?sorted)"
      by (rule re[THEN conjunct2, THEN conjunct2, THEN conjunct2, THEN conjunct2])
  qed
qed

theorem insertIntoBuffer_inline_flush_witness:
  "rows (data six_rows) \<noteq> 0
   \<and> exceeded (min_thresholds example_storage) (max_thresholds example_storage)
         (rows (data six_rows) + rows (sortColumns six_more))
         (bytes (data six_rows) + bytes (sortColumns six_more)) (age six_rows 200)
   \<and> exceeded (min_thresholds refusing_storage) (max_thresholds refusing_storage)
         (rows (data six_rows) + rows (sortColumns six_more))
         (bytes (data six_rows) + bytes (sortColumns six_more)) (age six_rows 200)
   \<and> fst (inline_flush refusing_storage six_more six_rows 200 200) = Some DESTINATION_FAILED
   \<and> fst (insertIntoBuffer refusing_storage six_more six_rows 200 200 no_faults) = Some DESTINATION_FAILED
   \<and> data (snd (snd (insertIntoBuffer refusing_storage six_more six_rows 200 200 no_faults)))
       = kv_block [1, 2, 3, 4, 5, 6] [''a'', ''b'', ''c'', ''d'', ''e'', ''f'']
   \<and> fst (inline_flush example_storage six_more six_rows 200 200) = None
   \<and> snd (snd (inline_flush example_storage six_more six_rows 200 200))
       = \<lparr>first_write_time = 0, data = kv_block [] []\<rparr>
   \<and> catalog (fst (snd (inline_flush example_storage six_more six_rows 200 200)))
       = Table (example_table\<lparr>written := [data six_rows]\<rparr>)
   \<and> fst (insertIntoBuffer example_storage six_more six_rows 200 200 no_faults) = None
   \<and> snd (snd (insertIntoBuffer example_storage six_more six_rows 200 200 no_faults))
       = \<lparr>first_write_time = 200,
          data = kv_block [7, 8, 9, 10, 11, 12] [''u'', ''v'', ''w'', ''x'', ''y'', ''z'']\<rparr>
   \<and> catalog (fst (snd (insertIntoBuffer example_storage six_more six_rows 200 200 no_faults)))
       = Table (example_table\<lparr>written := [data six_rows]\<rparr>)
   \<and> StorageBufferFlush (fst (snd (insertIntoBuffer example_storage six_more six_rows 200 200 no_faults))) = 1"
proof -
  have ne: "rows (data six_rows) \<noteq> 0"
    by code_simp
  have th: "exceeded (min_thresholds example_storage) (max_thresholds example_storage)
         (rows (data six_rows) + rows (sortColumns six_more))
         (bytes (data six_rows) + bytes (sortColumns six_more)) (age six_rows 200)"
    by code_simp
  have th': "exceeded (min_thresholds refusing_storage) (max_thresholds refusing_storage)
         (rows (data six_rows) + rows (sortColumns six_more))
         (bytes (data six_rows) + bytes (sortColumns six_more)) (age six_rows 200)"
    by code_simp
  have ko: "fst (inline_flush refusing_storage six_more six_rows 200 200) = Some DESTINATION_FAILED"
    by code_simp
  have fok: "fst (inline_flush example_storage six_more six_rows 200 200) = None"
    by code_simp
  have ok: "fst (insertIntoBuffer example_storage six_more six_rows 200 200 no_faults) = None"
    by code_simp
  have so: "sortColumns six_more = kv_block [7, 8, 9, 10, 11, 12] [''u'', ''v'', ''w'', ''x'', ''y'', ''z'']"
    by code_simp
  have da: "data six_rows = kv_block [1, 2, 3, 4, 5, 6] [''a'', ''b'', ''c'', ''d'', ''e'', ''f'']"
    by (simp add: six_rows_def)
  have em: "emptied six_rows = \<lparr>first_write_time = 0, data = kv_block [] []\<rparr>"
    by code_simp
  have ca: "catalog (snd (writeBlockToDestination (data six_rows) (tryGetTable example_storage) example_storage))
      = Table (example_table\<lparr>written := [data six_rows]\<rparr>)"
    by code_simp
  have fl: "StorageBufferFlush example_storage = 0"
    by (simp add: example_defs)
  note r = insertIntoBuffer_inline_flush[OF ne th', of 200 no_faults, THEN conjunct1]
  note t = insertIntoBuffer_inline_flush[OF ne th, of 200 no_faults]
  have kn: "fst (inline_flush refusing_storage six_more six_rows 200 200) \<noteq> None"
    using ko by simp
  note rr = r[THEN mp, OF kn]
  have r1: "fst (insertIntoBuffer refusing_storage six_more six_rows 200 200 no_faults) = Some DESTINATION_FAILED"
    using rr[THEN conjunct1] ko by simp
  have r2: "data (snd (snd (insertIntoBuffer refusing_storage six_more six_rows 200 200 no_faults)))
       = kv_block [1, 2, 3, 4, 5, 6] [''a'', ''b'', ''c'', ''d'', ''e'', ''f'']"
    using rr[THEN conjunct2] da by simp
  have t2: "snd (snd (inline_flush example_storage six_more six_rows 200 200))
       = \<lparr>first_write_time = 0, data = kv_block [] []\<rparr>"
    "catalog (fst (snd (inline_flush example_storage six_more six_rows 200 200)))
       = Table (example_table\<lparr>written := [data six_rows]\<rparr>)"
    using t[THEN conjunct2, THEN conjunct1] fok em ca by simp_all
  have t3: "snd (snd (insertIntoBuffer example_storage six_more six_rows 200 200 no_faults))
       = \<lparr>first_write_time = 200,
          data = kv_block [7, 8, 9, 10, 11, 12] [''u'', ''v'', ''w'', ''x'', ''y'', ''z'']\<rparr>"
    "catalog (fst (snd (insertIntoBuffer example_storage six_more six_rows 200 200 no_faults)))
       = Table (example_table\<lparr>written := [data six_rows]\<rparr>)"
    "StorageBufferFlush (fst (snd (insertIntoBuffer example_storage six_more six_rows 200 200 no_faults))) = 1"
    using t[THEN conjunct2, THEN conjunct2] ok so ca fl by simp_all
  show ?thesis
    using ne th th' ko r1 r2 fok t2 ok t3 by simp
qed

text \<open>
  The property fails as the spec words it in front of a destination whose write throws: the shard holds
  six rows and the thresholds are passed with the incoming block counted in, the insert
  raises the error of the destination, the destination has received nothing, and the
  shard holds the six rows it held before, not the six incoming ones.
\<close>

theorem refused_flush_keeps_old_rows:
  "rows (data six_rows) \<noteq> 0
   \<and> exceeded (min_thresholds refusing_storage) (max_thresholds refusing_storage)
         (rows (data six_rows) + rows (sortColumns six_more))
         (bytes (data six_rows) + bytes (sortColumns six_more)) (age six_rows 200)
   \<and> fst (insertIntoBuffer refusing_storage six_more six_rows 200 200 no_faults) = Some DESTINATION_FAILED
   \<and> catalog (fst (snd (insertIntoBuffer refusing_storage six_more six_rows 200 200 no_faults)))
       = Table (example_table\<lparr>write_throws := True, written := []\<rparr>)
   \<and> data (snd (snd (insertIntoBuffer refusing_storage six_more six_rows 200 200 no_faults)))
       = kv_block [1, 2, 3, 4, 5, 6] [''a'', ''b'', ''c'', ''d'', ''e'', ''f'']
   \<and> sortColumns six_more = kv_block [7, 8, 9, 10, 11, 12] [''u'', ''v'', ''w'', ''x'', ''y'', ''z'']"
  by code_simp

text \<open>
  C1, as the code has it. Every block of a sequence of writes matches the engine's schema,
  no column append throws, and the destination is present, never throws and has every
  column of the engine under its name and type. Then the writes and the optimize that
  follows all return normally, every shard is left without rows, and the multiset of rows
  the destination has received has grown by exactly the rows the shards held before and
  the rows of the blocks written: no row is lost and none is duplicated. From an engine
  with empty shards the rows received are the rows of the blocks.
\<close>

theorem writes_then_optimize_delivers:
  assumes "engine_ok s" and "admissible (storage_columns s) ws"
  shows "fst (writes_then_optimize s ws clock) = None
       \<and> delivered (snd (writes_then_optimize s ws clock))
           = delivered s + held (buffers s) + rows_written ws
       \<and> list_all (\<lambda>b. rows (data b) = 0) (buffers (snd (writes_then_optimize s ws clock)))"
proof -
  note wa = write_all_serves[OF assms]
  obtain s1 where w1: "write_all s ws = (None, s1)"
    using wa by (cases "write_all s ws") auto
  have eo: "engine_ok s1"
    and sm: "delivered s1 + held (buffers s1) = delivered s + held (buffers s) + rows_written ws"
    using wa w1 by simp_all
  have sv: "destination_serves s1" and so: "list_all (shard_ok (storage_columns s1)) (buffers s1)"
    using eo by (simp_all add: engine_ok_def)
  note ff = flush_from_serves[OF sv so, of clock 0]
  obtain s2 bufs where fe: "flush_from s1 False clock 0 (buffers s1) = (None, s2, bufs)"
    using ff by (cases "flush_from s1 False clock 0 (buffers s1)") auto
  have sm2: "delivered s2 + held bufs = delivered s1 + held (buffers s1)"
    and z: "list_all (\<lambda>b. rows (data b) = 0) bufs"
    using ff fe by simp_all
  have res: "writes_then_optimize s ws clock = (None, s2\<lparr>buffers := bufs\<rparr>)"
    using w1 fe by (simp add: writes_then_optimize_def optimize_def flushAllBuffers_def)
  have "delivered (s2\<lparr>buffers := bufs\<rparr>) = delivered s2" by (simp add: delivered_def)
  also have "\<dots> = delivered s1 + held (buffers s1)"
    using sm2 held_no_rows[OF z] by simp
  finally have "delivered (s2\<lparr>buffers := bufs\<rparr>) = delivered s + held (buffers s) + rows_written ws"
    using sm by simp
  then show ?thesis
    unfolding res using z by simp
qed

theorem writes_then_optimize_delivers_witness:
  "engine_ok example_storage
   \<and> admissible (storage_columns example_storage) two_writes
   \<and> fst (writes_then_optimize example_storage two_writes (\<lambda>_. 300)) = None
   \<and> delivered (snd (writes_then_optimize example_storage two_writes (\<lambda>_. 300)))
       = rows_written two_writes
   \<and> list_all (\<lambda>b. rows (data b) = 0)
        (buffers (snd (writes_then_optimize example_storage two_writes (\<lambda>_. 300))))"
proof -
  have e: "engine_ok example_storage"
    by (simp add: engine_ok_def destination_serves_def shard_ok_def destination_structure_def
        example_defs)
  have a: "admissible (storage_columns example_storage) two_writes"
    by code_simp
  have d: "delivered example_storage = {#}" "held (buffers example_storage) = {#}"
    by (simp_all add: delivered_def held_def rows_of_def rows_def example_defs)
  show ?thesis
    using e a d writes_then_optimize_delivers[OF e a, of "\<lambda>_. 300"] by simp
qed

text \<open>
  The property fails as the spec words it when the destination, though present and never throwing, does
  not have the engine's columns: the write of one row and the optimize both return
  normally, the shards are drained, and the destination has received nothing.
\<close>

theorem rows_lost_without_common_columns:
  "check (storage_columns foreign_storage) (kv_block [1] [''a''])
   \<and> rows (kv_block [1] [''a'']) = 1
   \<and> catalog foreign_storage = Table foreign_table
   \<and> write_throws foreign_table = False
   \<and> fst (writes_then_optimize foreign_storage [(example_env, kv_block [1] [''a''])] (\<lambda>_. 300)) = None
   \<and> delivered (snd (writes_then_optimize foreign_storage [(example_env, kv_block [1] [''a''])] (\<lambda>_. 300))) = {#}
   \<and> rows_written [(example_env, kv_block [1] [''a''])] \<noteq> {#}
   \<and> StorageBufferFlush (snd (writes_then_optimize foreign_storage [(example_env, kv_block [1] [''a''])] (\<lambda>_. 300))) = 1"
proof -
  let ?r = "writes_then_optimize foreign_storage [(example_env, kv_block [1] [''a''])] (\<lambda>_. 300)"
  have c: "check (storage_columns foreign_storage) (kv_block [1] [''a''])"
    by code_simp
  have r: "rows (kv_block [1] [''a'']) = 1"
    by (simp add: rows_def kv_block_def)
  have t: "catalog foreign_storage = Table foreign_table" "write_throws foreign_table = False"
    "written foreign_table = []"
    by (simp_all add: foreign_storage_def foreign_table_def example_defs)
  have f: "fst ?r = None"
    by code_simp
  have k: "catalog (snd ?r) = Table foreign_table"
    by code_simp
  have fl: "StorageBufferFlush (snd ?r) = 1"
    by code_simp
  have d: "delivered (snd ?r) = {#}"
    by (simp add: delivered_def k t(3))
  have w: "rows_written [(example_env, kv_block [1] [''a''])] \<noteq> {#}"
    by (simp add: rows_written_def rows_of_def r)
  show ?thesis
    using c r t f d w fl by simp
qed

text \<open>
  C4. The gauges follow the shards through a successful append, the swap of a flush and
  the swap back of a failed flush. An append whose column append throws neither rolls back
  nor throws the exception again, whatever the blocks and the faults: \<open>appendBlock\<close> has
  added the incoming rows and bytes to the gauges, the loop has left the slot of the
  throwing column empty, and the rollback loop reads through it, so the process dies. Two
  shards hold one row each and the gauges read 2 rows and 36 bytes; a write of one row
  whose append throws at the second column ends the process, with the gauges at 3 rows and
  54 bytes.
\<close>

theorem failed_append_ends_process:
  "fst (appendBlock flt from to s) \<noteq> Some INSERT_RANGE_FAILED
   \<and> StorageBufferRows two_shards = int (sum_list (map (\<lambda>b. rows (data b)) (buffers two_shards)))
   \<and> StorageBufferBytes two_shards = int (sum_list (map (\<lambda>b. bytes (data b)) (buffers two_shards)))
   \<and> fst (write_block two_shards failing_env (kv_block [3] [''c''])) = Some SEGMENTATION_FAULT
   \<and> StorageBufferRows (snd (write_block two_shards failing_env (kv_block [3] [''c'']))) = 3
   \<and> StorageBufferBytes (snd (write_block two_shards failing_env (kv_block [3] [''c'']))) = 54"
proof -
  have run: "StorageBufferRows two_shards = int (sum_list (map (\<lambda>b. rows (data b)) (buffers two_shards)))
   \<and> StorageBufferBytes two_shards = int (sum_list (map (\<lambda>b. bytes (data b)) (buffers two_shards)))
   \<and> fst (write_block two_shards failing_env (kv_block [3] [''c''])) = Some SEGMENTATION_FAULT
   \<and> StorageBufferRows (snd (write_block two_shards failing_env (kv_block [3] [''c'']))) = 3
   \<and> StorageBufferBytes (snd (write_block two_shards failing_env (kv_block [3] [''c'']))) = 54"
    by code_simp
  show ?thesis
    by (rule conjI[OF appendBlock_never_rethrows run])
qed

text \<open>
  An append of one row onto a shard of one row that throws at the second column: with a
  cut that does not throw the rollback loop reaches the empty slot, with a cut that throws
  it ends in \<open>std::terminate\<close> at the first column.
\<close>

theorem failed_append_ends_process_witness:
  "fst (appendBlock \<lparr>insert_throws = Some 1, cut_throws = False\<rparr>
          (kv_block [3] [''c'']) (kv_block [1] [''a'']) two_shards) = Some SEGMENTATION_FAULT
   \<and> fst (appendBlock \<lparr>insert_throws = Some 1, cut_throws = True\<rparr>
          (kv_block [3] [''c'']) (kv_block [1] [''a'']) two_shards) = Some TERMINATED
   \<and> fst (appendBlock \<lparr>insert_throws = Some 1, cut_throws = False\<rparr>
          (kv_block [3] [''c'']) (kv_block [1] [''a'']) two_shards) \<noteq> Some INSERT_RANGE_FAILED
   \<and> fst (write_block two_shards failing_env (kv_block [3] [''c''])) = Some SEGMENTATION_FAULT"
proof -
  have a: "fst (appendBlock \<lparr>insert_throws = Some 1, cut_throws = False\<rparr>
          (kv_block [3] [''c'']) (kv_block [1] [''a'']) two_shards) = Some SEGMENTATION_FAULT"
    by code_simp
  have b: "fst (appendBlock \<lparr>insert_throws = Some 1, cut_throws = True\<rparr>
          (kv_block [3] [''c'']) (kv_block [1] [''a'']) two_shards) = Some TERMINATED"
    by code_simp
  note t = failed_append_ends_process[of "\<lparr>insert_throws = Some 1, cut_throws = False\<rparr>"
      "kv_block [3] [''c'']" "kv_block [1] [''a'']" two_shards]
  show ?thesis
    using a b t[THEN conjunct1] t[THEN conjunct2, THEN conjunct2, THEN conjunct2, THEN conjunct1]
    by simp
qed

end
